theory Spec2Isabelle
  imports Complex_Main
begin

section \<open>Data model\<close>

text \<open>
  Pixel values and kernel weights are real numbers: the development is about the exact
  arithmetic of the algorithms, not about floating-point rounding.  Pixel indices, widths
  and heights are natural numbers; every subtraction below is guarded by the precondition
  checks of the code, which are part of the model.  They are unbounded: the sizes of an
  image that fits in memory are far from the range of \<open>int\<close>.
\<close>

type_synonym 'p pixels = "nat \<Rightarrow> nat \<Rightarrow> 'p"

definition setPix :: "'p pixels \<Rightarrow> nat \<Rightarrow> nat \<Rightarrow> 'p \<Rightarrow> 'p pixels" where
  "setPix p x y v = (\<lambda>x' y'. if x' = x \<and> y' = y then v else p x' y')"

record 'p Image =
  getWidth :: nat
  getHeight :: nat
  pix :: "'p pixels"

record BBox =
  getMinX :: nat
  getMinY :: nat
  bboxWidth :: nat
  bboxHeight :: nat

definition inBBox :: "BBox \<Rightarrow> nat \<Rightarrow> nat \<Rightarrow> bool" where
  "inBBox b x y \<longleftrightarrow>
     getMinX b \<le> x \<and> x < getMinX b + bboxWidth b \<and> getMinY b \<le> y \<and> y < getMinY b + bboxHeight b"

definition mkBBox :: "nat \<Rightarrow> nat \<Rightarrow> nat \<Rightarrow> nat \<Rightarrow> BBox" where
  "mkBBox x0 y0 w h = \<lparr>getMinX = x0, getMinY = y0, bboxWidth = w, bboxHeight = h\<rparr>"

type_synonym KernelImage = "nat \<Rightarrow> nat \<Rightarrow> real"

text \<open>
  The three kernel shapes \<open>basicConvolve\<close> tells apart by \<open>dynamic_cast\<close>.  A delta-function
  kernel carries the position of its single unit pixel; a separable kernel carries its
  column and row weight functions (position of the output pixel, then index in the vector);
  every other kernel is known through the weight image it computes at a position.
\<close>

datatype KernelShape =
    DeltaFunction nat nat
  | Separable "real \<Rightarrow> real \<Rightarrow> nat \<Rightarrow> real" "real \<Rightarrow> real \<Rightarrow> nat \<Rightarrow> real"
  | Dense "real \<Rightarrow> real \<Rightarrow> KernelImage"

record Kernel =
  kernelWidth :: nat
  kernelHeight :: nat
  getCtrX :: nat
  getCtrY :: nat
  isSpatiallyVarying :: bool
  shape :: KernelShape

text \<open>
  The ways in which a call ends other than by returning: the two exceptions of the
  convolution functions on their arguments, a failed \<open>assert\<close>, an integer division by zero,
  the exception \<open>LengthError\<close> of the sub-image constructor, and \<open>UndefinedBehaviour\<close> where the
  code reads or writes outside an image or copies a view of negative size.
\<close>

datatype error = NotSameSize | SmallerThanKernel | AssertionFailed | DivisionByZero | InvalidParameter
  | LengthError | UndefinedBehaviour

text \<open>
  \<open>getDimensions\<close> of an image or a kernel is the pair of its width and its height, and the
  code compares two such pairs with \<open><\<close>, which orders pairs lexicographically: the widths
  decide, and the heights only when the widths are equal.
\<close>

definition dimensionsLess :: "nat \<times> nat \<Rightarrow> nat \<times> nat \<Rightarrow> bool" where
  "dimensionsLess a b \<longleftrightarrow> fst a < fst b \<or> (fst a = fst b \<and> snd a < snd b)"

section \<open>Border Filler: copyRegion and copyBorder (ConvolveImage.cc)\<close>

text \<open>
  \<open>copyRegion\<close> for plain images: the patch of the output image over the region is
  overwritten by the same patch of the input image.  The edge bit, which \<open>copyBorder\<close> sets
  in the mask plane of a masked image, does not concern plain images and is left out.  The
  image and kernel sizes are unsigned in \<open>copyBorder\<close>; on an image at least as large as the
  kernel no subtraction wraps, and the four regions are the ones below.  What the call does
  on any image is \<open>copyBorderChecked\<close> further down, which is \<open>copyBorder\<close> on such an image.
\<close>

definition copyRegion :: "'p Image \<Rightarrow> 'p Image \<Rightarrow> BBox \<Rightarrow> 'p Image" where
  "copyRegion outImage inImage region =
     outImage\<lparr>pix := (\<lambda>x y. if inBBox region x y then pix inImage x y else pix outImage x y)\<rparr>"

definition bottomEdge :: "nat \<Rightarrow> nat \<Rightarrow> Kernel \<Rightarrow> BBox" where
  "bottomEdge imWidth imHeight krn = mkBBox 0 0 imWidth (getCtrY krn)"

definition topEdge :: "nat \<Rightarrow> nat \<Rightarrow> Kernel \<Rightarrow> BBox" where
  "topEdge imWidth imHeight krn =
     (let numHeight = kernelHeight krn - (1 + getCtrY krn)
      in mkBBox 0 (imHeight - numHeight) imWidth numHeight)"

definition leftEdge :: "nat \<Rightarrow> nat \<Rightarrow> Kernel \<Rightarrow> BBox" where
  "leftEdge imWidth imHeight krn =
     mkBBox 0 (getCtrY krn) (getCtrX krn) (imHeight + 1 - kernelHeight krn)"

definition rightEdge :: "nat \<Rightarrow> nat \<Rightarrow> Kernel \<Rightarrow> BBox" where
  "rightEdge imWidth imHeight krn =
     (let numWidth = kernelWidth krn - (1 + getCtrX krn)
      in mkBBox (imWidth - numWidth) (getCtrY krn) numWidth (imHeight + 1 - kernelHeight krn))"

definition copyBorder :: "'p Image \<Rightarrow> 'p Image \<Rightarrow> Kernel \<Rightarrow> 'p Image" where
  "copyBorder convolvedImage inImage krn =
     (let imWidth = getWidth inImage;
          imHeight = getHeight inImage;
          c1 = copyRegion convolvedImage inImage (bottomEdge imWidth imHeight krn);
          c2 = copyRegion c1 inImage (topEdge imWidth imHeight krn);
          c3 = copyRegion c2 inImage (leftEdge imWidth imHeight krn)
      in copyRegion c3 inImage (rightEdge imWidth imHeight krn))"

text \<open>
  \<open>copyRegion\<close> first builds the patch of each image over the region, and the constructor
  of a sub-image (\<open>_makeSubView\<close>, Image.cc) raises \<open>LengthError\<close> when the region does not fit
  in the image; the output image is then as it stood.  The corner and the extents of the
  region are \<open>int\<close>: the differences of unsigned sizes that \<open>copyBorder\<close> passes arrive as the
  signed differences.  A region with a negative extent that passes the test gives a view of
  negative size, and copying it is \<open>UndefinedBehaviour\<close>.
\<close>

definition copyRegionChecked ::
  "'p Image \<Rightarrow> 'p Image \<Rightarrow> int \<Rightarrow> int \<Rightarrow> int \<Rightarrow> int \<Rightarrow> 'p Image \<times> error option" where
  "copyRegionChecked outImage inImage x0 y0 w h =
     (if x0 < 0 \<or> y0 < 0 \<or> x0 + w > int (getWidth outImage) \<or> y0 + h > int (getHeight outImage)
      then (outImage, Some LengthError)
      else if x0 < 0 \<or> y0 < 0 \<or> x0 + w > int (getWidth inImage) \<or> y0 + h > int (getHeight inImage)
      then (outImage, Some LengthError)
      else if w < 0 \<or> h < 0
      then (outImage, Some UndefinedBehaviour)
      else (copyRegion outImage inImage (mkBBox (nat x0) (nat y0) (nat w) (nat h)), None))"

text \<open>
  \<open>copyBorder\<close> on any image and kernel, as \<open>convolve\<close> and \<open>convolveLinear\<close> call it: the four
  regions in the order of the code, each with the test of the sub-image constructor.  An
  exception leaves the strips copied before it in the output image.
\<close>

definition copyBorderChecked :: "'p Image \<Rightarrow> 'p Image \<Rightarrow> Kernel \<Rightarrow> 'p Image \<times> error option" where
  "copyBorderChecked convolvedImage inImage krn =
     (let imWidth = int (getWidth inImage);
          imHeight = int (getHeight inImage);
          kWidth = int (kernelWidth krn);
          kHeight = int (kernelHeight krn);
          kCtrX = int (getCtrX krn);
          kCtrY = int (getCtrY krn);
          numHeight = kHeight - (1 + kCtrY);
          numWidth = kWidth - (1 + kCtrX)
      in case copyRegionChecked convolvedImage inImage 0 0 imWidth kCtrY of
           (c1, Some e) \<Rightarrow> (c1, Some e)
         | (c1, None) \<Rightarrow>
       (case copyRegionChecked c1 inImage 0 (imHeight - numHeight) imWidth numHeight of
           (c2, Some e) \<Rightarrow> (c2, Some e)
         | (c2, None) \<Rightarrow>
       (case copyRegionChecked c2 inImage 0 kCtrY kCtrX (imHeight + 1 - kHeight) of
           (c3, Some e) \<Rightarrow> (c3, Some e)
         | (c3, None) \<Rightarrow>
             copyRegionChecked c3 inImage (imWidth - numWidth) kCtrY numWidth
               (imHeight + 1 - kHeight))))"

text \<open>
  The region \<open>basicConvolve\<close> fills: columns \<open>cnvStartX \<le> x < cnvEndX\<close> and rows
  \<open>cnvStartY \<le> y < cnvEndY\<close>, with \<open>cnvStart = ctr\<close> and
  \<open>cnvEnd = ctr + (image size + 1 - kernel size)\<close>.
\<close>

definition goodRegion :: "nat \<Rightarrow> nat \<Rightarrow> Kernel \<Rightarrow> BBox" where
  "goodRegion imWidth imHeight krn =
     mkBBox (getCtrX krn) (getCtrY krn)
       (imWidth + 1 - kernelWidth krn) (imHeight + 1 - kernelHeight krn)"

definition stripsHolding :: "nat \<Rightarrow> nat \<Rightarrow> Kernel \<Rightarrow> nat \<Rightarrow> nat \<Rightarrow> nat" where
  "stripsHolding imWidth imHeight krn x y =
     length (filter (\<lambda>b. inBBox b x y)
       [bottomEdge imWidth imHeight krn, topEdge imWidth imHeight krn,
        leftEdge imWidth imHeight krn, rightEdge imWidth imHeight krn])"

definition box3 :: Kernel where
  "box3 = \<lparr>kernelWidth = 3, kernelHeight = 3, getCtrX = 1, getCtrY = 1,
           isSpatiallyVarying = False, shape = Dense (\<lambda>x y i j. 1 / 9)\<rparr>"

section \<open>Region Interpolation Grid (ConvolveWithInterpolation.cc)\<close>

text \<open>The division of C++ on \<open>int\<close>, which truncates towards zero.\<close>

definition cdiv :: "int \<Rightarrow> int \<Rightarrow> int" where
  "cdiv a b = sgn a * sgn b * (\<bar>a\<bar> div \<bar>b\<bar>)"

definition gridDivisions :: "int \<Rightarrow> int \<Rightarrow> int \<Rightarrow> int \<times> int" where
  "gridDivisions goodWidth goodHeight maxInterpolationDistance =
     (1 + cdiv goodWidth maxInterpolationDistance, 1 + cdiv goodHeight maxInterpolationDistance)"

text \<open>
  Modelled from the spec: the widths of the columns (heights of the rows) of the
  \<open>nx \<times> ny\<close> grid, which \<open>KernelImagesForRegion::computeNextRow\<close> computes and which is
  not among the sources.  The spec asks that the sub-regions partition the valid area
  without gaps or overlaps into that many columns and rows; the length is divided as
  evenly as possible, the first \<open>len mod n\<close> parts being one pixel longer.
\<close>

definition subregionLengths :: "nat \<Rightarrow> nat \<Rightarrow> nat list" where
  "subregionLengths len n = map (\<lambda>i. len div n + (if i < len mod n then 1 else 0)) [0..<n]"

section \<open>Point Convolution Primitive and kernel evaluation\<close>

text \<open>
  Modelled from the spec: \<open>indexToPosition\<close> (ImageUtils.h, not among the sources), the
  position of the centre of the pixel with a given index.
\<close>

definition indexToPosition :: "nat \<Rightarrow> real" where
  "indexToPosition ind = real ind"

text \<open>
  Modelled from the spec: \<open>Kernel::computeImage\<close> (Kernel.cc is not among the sources).  It
  produces the weight image of the kernel at a position and returns the sum of the weights;
  when normalization is asked for, every weight is divided by that sum.  The weight image
  of a delta-function kernel is 1 at its pixel and 0 elsewhere, that of a separable kernel
  the outer product of its two vectors.
\<close>

definition kernelSum :: "KernelImage \<Rightarrow> nat \<Rightarrow> nat \<Rightarrow> real" where
  "kernelSum im w h = (\<Sum>j\<leftarrow>[0..<h]. \<Sum>i\<leftarrow>[0..<w]. im i j)"

definition rawImage :: "Kernel \<Rightarrow> real \<Rightarrow> real \<Rightarrow> KernelImage" where
  "rawImage krn x y =
     (case shape krn of
        DeltaFunction px py \<Rightarrow> (\<lambda>i j. if i = px \<and> j = py then 1 else 0)
      | Separable fx fy \<Rightarrow> (\<lambda>i j. fx x y i * fy x y j)
      | Dense f \<Rightarrow> f x y)"

definition computeImage :: "Kernel \<Rightarrow> bool \<Rightarrow> real \<Rightarrow> real \<Rightarrow> KernelImage \<times> real" where
  "computeImage krn doNormalize x y =
     (let im = rawImage krn x y;
          kSum = kernelSum im (kernelWidth krn) (kernelHeight krn)
      in (if doNormalize then (\<lambda>i j. im i j / kSum) else im, kSum))"

text \<open>
  Modelled from the spec: \<open>SeparableKernel::computeVectors\<close> (Kernel.cc is not among the
  sources).  It fills the column and row weight vectors at a position and returns the sum
  of the kernel, the product of the sums of the two vectors; when normalization is asked
  for, each vector is divided by its own sum, so that the outer product is the weight image
  divided by the kernel sum.
\<close>

definition computeVectors ::
  "(real \<Rightarrow> real \<Rightarrow> nat \<Rightarrow> real) \<Rightarrow> (real \<Rightarrow> real \<Rightarrow> nat \<Rightarrow> real) \<Rightarrow> nat \<Rightarrow> nat
     \<Rightarrow> bool \<Rightarrow> real \<Rightarrow> real \<Rightarrow> real list \<times> real list \<times> real" where
  "computeVectors fx fy w h doNormalize x y =
     (let xs = map (fx x y) [0..<w];
          ys = map (fy x y) [0..<h];
          xSum = sum_list xs;
          ySum = sum_list ys
      in if doNormalize then (map (\<lambda>v. v / xSum) xs, map (\<lambda>v. v / ySum) ys, xSum * ySum)
         else (xs, ys, xSum * ySum))"

text \<open>
  Modelled from the spec: the two forms of \<open>convolveAtAPoint\<close> (ConvolveImage.h, not among
  the sources).  The locator of the input image stands at the pixel \<open>(x0, y0)\<close> that the
  origin of the kernel covers.  The dense form is the sum of input times weight over the
  footprint; the separable form is the double pass, the row sums weighted by the column
  vector.
\<close>

definition convolveAtAPoint :: "real pixels \<Rightarrow> nat \<Rightarrow> nat \<Rightarrow> KernelImage \<Rightarrow> nat \<Rightarrow> nat \<Rightarrow> real" where
  "convolveAtAPoint inp x0 y0 kim kWidth kHeight =
     (\<Sum>j\<leftarrow>[0..<kHeight]. \<Sum>i\<leftarrow>[0..<kWidth]. inp (x0 + i) (y0 + j) * kim i j)"

definition convolveAtAPointSeparable :: "real pixels \<Rightarrow> nat \<Rightarrow> nat \<Rightarrow> real list \<Rightarrow> real list \<Rightarrow> real" where
  "convolveAtAPointSeparable inp x0 y0 kXVec kYVec =
     (\<Sum>j\<leftarrow>[0..<length kYVec]. kYVec ! j * (\<Sum>i\<leftarrow>[0..<length kXVec]. kXVec ! i * inp (x0 + i) (y0 + j)))"

section \<open>Basic Convolver (ConvolveImage.cc)\<close>

text \<open>
  \<open>convolveOneKernelRow\<close> adds to the output pixel at \<open>(ox, oy)\<close> the contribution of one
  row of the kernel, read against the input row \<open>iy\<close> from column \<open>ix\<close> on; kernel pixels
  of value 0 are skipped.
\<close>

definition convolveOneKernelRow ::
  "real pixels \<Rightarrow> nat \<Rightarrow> nat \<Rightarrow> real pixels \<Rightarrow> nat \<Rightarrow> nat \<Rightarrow> (nat \<Rightarrow> real) \<Rightarrow> nat \<Rightarrow> real pixels" where
  "convolveOneKernelRow outp ox oy inp ix iy kernelRow kWidth =
     setPix outp ox oy
       (fold (\<lambda>x locOutPixel.
                let kVal = kernelRow x
                in if kVal \<noteq> 0 then locOutPixel + inp (ix + x) iy * kVal else locOutPixel)
          [0..<kWidth] (outp ox oy))"

text \<open>
  Every convolution function returns the output image as the call leaves it, together with
  the exception it raised, if any.  The image is compared with the kernel as the code
  compares them, by \<open>dimensionsLess\<close> on their dimensions; an image that passes is at least
  as wide as the kernel, and it may be lower.  The sizes are \<open>int\<close> in the code and natural
  numbers here: \<open>cnvWidth\<close> is at least 1, and \<open>cnvHeight\<close>, which is zero or negative in the
  code when the image is lower than the kernel, is then zero.  A loop over the rows that
  tests \<open>< cnvEndY\<close> or \<open>< cnvHeight\<close> runs no iteration in either case.  A loop that tests
  \<open>!= cnvEndY\<close> runs none when \<open>cnvHeight\<close> is zero; when it is negative, that is when the
  height of the image plus 1 is below the height of the kernel, its first iteration
  convolves at the first pixel, which reads the rows of the kernel's height from the input,
  beyond its last row, before any pixel is written: \<open>UndefinedBehaviour\<close>.
\<close>

definition basicConvolveGeneral ::
  "real Image \<Rightarrow> real Image \<Rightarrow> Kernel \<Rightarrow> bool \<Rightarrow> real Image \<times> error option" where
  "basicConvolveGeneral convolvedImage inImage krn doNormalize =
     (if (getWidth convolvedImage, getHeight convolvedImage) \<noteq> (getWidth inImage, getHeight inImage)
      then (convolvedImage, Some NotSameSize)
      else if dimensionsLess (getWidth inImage, getHeight inImage) (kernelWidth krn, kernelHeight krn)
      then (convolvedImage, Some SmallerThanKernel)
      else
        let kWidth = kernelWidth krn;
            kHeight = kernelHeight krn;
            cnvWidth = getWidth inImage + 1 - kernelWidth krn;
            cnvHeight = getHeight inImage + 1 - kernelHeight krn;
            cnvStartX = getCtrX krn;
            cnvStartY = getCtrY krn;
            cnvEndX = cnvStartX + cnvWidth;
            cnvEndY = cnvStartY + cnvHeight
        in if isSpatiallyVarying krn then
             if getHeight inImage + 1 < kernelHeight krn
             then (convolvedImage, Some UndefinedBehaviour)
             else
             (convolvedImage\<lparr>pix :=
                fold (\<lambda>cnvY. fold (\<lambda>cnvX p.
                        let (kernelImage, kSum) =
                              computeImage krn False (indexToPosition cnvX) (indexToPosition cnvY);
                            v = convolveAtAPoint (pix inImage) (cnvX - cnvStartX) (cnvY - cnvStartY)
                                  kernelImage kWidth kHeight
                        in setPix p cnvX cnvY (if doNormalize then v / kSum else v))
                      [cnvStartX..<cnvEndX])
                  [cnvStartY..<cnvEndY] (pix convolvedImage)\<rparr>, None)
           else
             (let kernelImage = fst (computeImage krn doNormalize 0 0)
              in (convolvedImage\<lparr>pix :=
                fold (\<lambda>inStartY p.
                        let cnvY = cnvStartY + inStartY;
                            zeroed = fold (\<lambda>x q. setPix q x cnvY 0)
                                       [cnvStartX..<getWidth convolvedImage] p
                        in fold (\<lambda>kernelY. fold (\<lambda>x q.
                                  convolveOneKernelRow q (cnvStartX + x) cnvY
                                    (pix inImage) x (inStartY + kernelY)
                                    (\<lambda>kx. kernelImage kx kernelY) kWidth)
                                [0..<cnvWidth])
                             [0..<kHeight] zeroed)
                  [0..<cnvHeight] (pix convolvedImage)\<rparr>, None)))"

text \<open>
  The version for delta-function kernels copies the input pixel under the kernel's unit
  pixel.  Its \<open>assert\<close> that the kernel does not vary is the error \<open>AssertionFailed\<close>.
\<close>

definition basicConvolveDelta ::
  "real Image \<Rightarrow> real Image \<Rightarrow> Kernel \<Rightarrow> nat \<Rightarrow> nat \<Rightarrow> bool \<Rightarrow> real Image \<times> error option" where
  "basicConvolveDelta convolvedImage inImage krn inStartX inStartY doNormalize =
     (if isSpatiallyVarying krn then (convolvedImage, Some AssertionFailed)
      else if (getWidth convolvedImage, getHeight convolvedImage) \<noteq> (getWidth inImage, getHeight inImage)
      then (convolvedImage, Some NotSameSize)
      else if dimensionsLess (getWidth convolvedImage, getHeight convolvedImage)
                (kernelWidth krn, kernelHeight krn)
      then (convolvedImage, Some SmallerThanKernel)
      else
        let cnvWidth = getWidth inImage + 1 - kernelWidth krn;
            cnvHeight = getHeight inImage + 1 - kernelHeight krn;
            cnvStartX = getCtrX krn;
            cnvStartY = getCtrY krn
        in (convolvedImage\<lparr>pix :=
              fold (\<lambda>i. fold (\<lambda>x p.
                      setPix p (cnvStartX + x) (i + cnvStartY) (pix inImage (inStartX + x) (i + inStartY)))
                    [0..<cnvWidth])
                [0..<cnvHeight] (pix convolvedImage)\<rparr>, None))"

text \<open>
  The version for separable kernels uses the two-pass primitive.  Both of its loops over the
  rows test \<open>!= cnvEndY\<close>.
\<close>

definition basicConvolveSeparable ::
  "real Image \<Rightarrow> real Image \<Rightarrow> Kernel \<Rightarrow> (real \<Rightarrow> real \<Rightarrow> nat \<Rightarrow> real) \<Rightarrow> (real \<Rightarrow> real \<Rightarrow> nat \<Rightarrow> real)
     \<Rightarrow> bool \<Rightarrow> real Image \<times> error option" where
  "basicConvolveSeparable convolvedImage inImage krn fx fy doNormalize =
     (if (getWidth convolvedImage, getHeight convolvedImage) \<noteq> (getWidth inImage, getHeight inImage)
      then (convolvedImage, Some NotSameSize)
      else if dimensionsLess (getWidth inImage, getHeight inImage) (kernelWidth krn, kernelHeight krn)
      then (convolvedImage, Some SmallerThanKernel)
      else if getHeight inImage + 1 < kernelHeight krn
      then (convolvedImage, Some UndefinedBehaviour)
      else
        let cnvWidth = getWidth inImage + 1 - kernelWidth krn;
            cnvHeight = getHeight inImage + 1 - kernelHeight krn;
            cnvStartX = getCtrX krn;
            cnvStartY = getCtrY krn;
            cnvEndX = cnvStartX + cnvWidth;
            cnvEndY = cnvStartY + cnvHeight
        in if isSpatiallyVarying krn then
             (convolvedImage\<lparr>pix :=
                fold (\<lambda>cnvY. fold (\<lambda>cnvX p.
                        let (kXVec, kYVec, kSum) =
                              computeVectors fx fy (kernelWidth krn) (kernelHeight krn) doNormalize
                                (indexToPosition cnvX) (indexToPosition cnvY);
                            v = convolveAtAPointSeparable (pix inImage)
                                  (cnvX - cnvStartX) (cnvY - cnvStartY) kXVec kYVec
                        in setPix p cnvX cnvY (if doNormalize then v / kSum else v))
                      [cnvStartX..<cnvEndX])
                  [cnvStartY..<cnvEndY] (pix convolvedImage)\<rparr>, None)
           else
             (let (kXVec, kYVec, kSum) =
                    computeVectors fx fy (kernelWidth krn) (kernelHeight krn) doNormalize 0 0
              in (convolvedImage\<lparr>pix :=
                    fold (\<lambda>cnvY. fold (\<lambda>x p.
                            setPix p (cnvStartX + x) cnvY
                              (convolveAtAPointSeparable (pix inImage) x (cnvY - cnvStartY) kXVec kYVec))
                          [0..<cnvEndX - cnvStartX])
                      [cnvStartY..<cnvEndY] (pix convolvedImage)\<rparr>, None)))"

text \<open>
  \<open>basicConvolve\<close> on a kernel of unknown class first looks for the two special classes
  and otherwise runs the general form.
\<close>

definition basicConvolve :: "real Image \<Rightarrow> real Image \<Rightarrow> Kernel \<Rightarrow> bool \<Rightarrow> real Image \<times> error option" where
  "basicConvolve convolvedImage inImage krn doNormalize =
     (case shape krn of
        DeltaFunction px py \<Rightarrow> basicConvolveDelta convolvedImage inImage krn px py doNormalize
      | Separable fx fy \<Rightarrow> basicConvolveSeparable convolvedImage inImage krn fx fy doNormalize
      | Dense f \<Rightarrow> basicConvolveGeneral convolvedImage inImage krn doNormalize)"

text \<open>
  \<open>convolve\<close>: the basic convolution, then the border.  An exception of either leaves the
  image as it stands then.
\<close>

definition convolve :: "real Image \<Rightarrow> real Image \<Rightarrow> Kernel \<Rightarrow> bool \<Rightarrow> real Image \<times> error option" where
  "convolve convolvedImage inImage krn doNormalize =
     (case basicConvolve convolvedImage inImage krn doNormalize of
        (c, Some e) \<Rightarrow> (c, Some e)
      | (c, None) \<Rightarrow> copyBorderChecked c inImage krn)"

section \<open>Linear-Combination Convolver (ConvolveImage.cc)\<close>

text \<open>
  A linear-combination kernel: a list of basis kernels and, when it varies spatially, one
  spatial function per basis kernel giving its coefficient at a position; when it does not
  vary, the coefficients are its kernel parameters.
\<close>

record LinearCombinationKernel =
  lcWidth :: nat
  lcHeight :: nat
  lcCtrX :: nat
  lcCtrY :: nat
  lcSpatiallyVarying :: bool
  getKernelList :: "Kernel list"
  getSpatialFunctionList :: "(real \<Rightarrow> real \<Rightarrow> real) list"
  getKernelParameters :: "real list"

definition basisCoefficient :: "LinearCombinationKernel \<Rightarrow> nat \<Rightarrow> real \<Rightarrow> real \<Rightarrow> real" where
  "basisCoefficient lck b x y =
     (if lcSpatiallyVarying lck then (getSpatialFunctionList lck ! b) x y
      else getKernelParameters lck ! b)"

text \<open>
  Modelled from the spec: \<open>LinearCombinationKernel::computeImage\<close> (Kernel.cc is not among
  the sources).  Seen as a plain kernel, a linear-combination kernel computes at a position
  the sum over the basis kernels of the coefficient at that position times the weight
  image of the basis kernel.
\<close>

definition asKernel :: "LinearCombinationKernel \<Rightarrow> Kernel" where
  "asKernel lck =
     \<lparr>kernelWidth = lcWidth lck, kernelHeight = lcHeight lck,
      getCtrX = lcCtrX lck, getCtrY = lcCtrY lck,
      isSpatiallyVarying = lcSpatiallyVarying lck,
      shape = Dense (\<lambda>x y i j. \<Sum>b\<leftarrow>[0..<length (getKernelList lck)].
                 basisCoefficient lck b x y * rawImage (getKernelList lck ! b) 0 0 i j)\<rparr>"

text \<open>
  The loop of \<open>convolveLinear\<close> over the basis kernels: the input is convolved with the
  basis kernel into the basis image, which is then added, pixel by pixel over the good
  area and scaled by the spatial function, to the convolved image.  An exception raised
  by \<open>basicConvolve\<close> leaves the loop with the convolved image as it stands.
\<close>

fun convolveLinearBases ::
  "real Image \<Rightarrow> LinearCombinationKernel \<Rightarrow> nat list \<Rightarrow> real pixels \<times> real Image
     \<Rightarrow> real pixels \<times> error option" where
  "convolveLinearBases inImage lck [] (p, basisImage) = (p, None)"
| "convolveLinearBases inImage lck (b # bs) (p, basisImage) =
     (case basicConvolve basisImage inImage (getKernelList lck ! b) False of
        (basisImage', Some e) \<Rightarrow> (p, Some e)
      | (basisImage', None) \<Rightarrow>
          (let cnvWidth = getWidth inImage + 1 - lcWidth lck;
               cnvHeight = getHeight inImage + 1 - lcHeight lck;
               cnvStartX = lcCtrX lck;
               cnvStartY = lcCtrY lck;
               cnvEndX = cnvStartX + cnvWidth;
               cnvEndY = cnvStartY + cnvHeight;
               p' = fold (\<lambda>cnvY. fold (\<lambda>cnvX q.
                            let basisCoeff = (getSpatialFunctionList lck ! b)
                                               (indexToPosition cnvX) (indexToPosition cnvY)
                            in setPix q cnvX cnvY
                                 (q cnvX cnvY + pix basisImage' cnvX cnvY * basisCoeff))
                          [cnvStartX..<cnvEndX])
                      [cnvStartY..<cnvEndY] p
           in convolveLinearBases inImage lck bs (p', basisImage')))"

text \<open>
  \<open>convolveLinear\<close>.  The first argument is the content of the freshly allocated basis
  image, which the code does not initialise.
\<close>

definition convolveLinear ::
  "real pixels \<Rightarrow> real Image \<Rightarrow> real Image \<Rightarrow> LinearCombinationKernel \<Rightarrow> real Image \<times> error option" where
  "convolveLinear fresh convolvedImage inImage lck =
     (if \<not> lcSpatiallyVarying lck then convolve convolvedImage inImage (asKernel lck) False
      else if (getWidth convolvedImage, getHeight convolvedImage) \<noteq> (getWidth inImage, getHeight inImage)
      then (convolvedImage, Some NotSameSize)
      else if dimensionsLess (getWidth inImage, getHeight inImage) (lcWidth lck, lcHeight lck)
      then (convolvedImage, Some SmallerThanKernel)
      else
        let cnvWidth = getWidth inImage + 1 - lcWidth lck;
            cnvHeight = getHeight inImage + 1 - lcHeight lck;
            cnvStartX = lcCtrX lck;
            cnvStartY = lcCtrY lck;
            cnvEndX = cnvStartX + cnvWidth;
            cnvEndY = cnvStartY + cnvHeight;
            basisImage = \<lparr>getWidth = getWidth inImage, getHeight = getHeight inImage, pix = fresh\<rparr>;
            zeroed = fold (\<lambda>cnvY. fold (\<lambda>cnvX q. setPix q cnvX cnvY 0) [cnvStartX..<cnvEndX])
                       [cnvStartY..<cnvEndY] (pix convolvedImage)
        in case convolveLinearBases inImage lck [0..<length (getKernelList lck)] (zeroed, basisImage) of
             (p, Some e) \<Rightarrow> (convolvedImage\<lparr>pix := p\<rparr>, Some e)
           | (p, None) \<Rightarrow> copyBorderChecked (convolvedImage\<lparr>pix := p\<rparr>) inImage (asKernel lck))"

text \<open>
  The invariants of the kernel classes, which their constructors (not among the sources)
  establish: the centre lies inside the kernel, the pixel of a delta-function kernel lies
  inside it and such a kernel does not vary; the basis kernels of a linear-combination
  kernel do not vary and have its dimensions and centre (their weight images are added up),
  and there is one spatial function per basis kernel.
\<close>

definition kernel_wf :: "Kernel \<Rightarrow> bool" where
  "kernel_wf krn \<longleftrightarrow>
     getCtrX krn < kernelWidth krn \<and> getCtrY krn < kernelHeight krn \<and>
     (case shape krn of
        DeltaFunction px py \<Rightarrow> px < kernelWidth krn \<and> py < kernelHeight krn \<and> \<not> isSpatiallyVarying krn
      | Separable fx fy \<Rightarrow> True
      | Dense f \<Rightarrow> True)"

definition basis_wf :: "LinearCombinationKernel \<Rightarrow> Kernel \<Rightarrow> bool" where
  "basis_wf lck krn \<longleftrightarrow>
     kernel_wf krn \<and> \<not> isSpatiallyVarying krn \<and>
     kernelWidth krn = lcWidth lck \<and> kernelHeight krn = lcHeight lck \<and>
     getCtrX krn = lcCtrX lck \<and> getCtrY krn = lcCtrY lck"

definition lck_wf :: "LinearCombinationKernel \<Rightarrow> bool" where
  "lck_wf lck \<longleftrightarrow>
     lcCtrX lck < lcWidth lck \<and> lcCtrY lck < lcHeight lck \<and>
     list_all (basis_wf lck) (getKernelList lck) \<and>
     length (getSpatialFunctionList lck) = length (getKernelList lck)"

text \<open>
  The contribution of basis kernel \<open>b\<close> to the output pixel \<open>(x, y)\<close>: the input convolved
  with the weight image of the basis kernel, times the coefficient at the pixel.
\<close>

definition basisTerm :: "real Image \<Rightarrow> LinearCombinationKernel \<Rightarrow> nat \<Rightarrow> nat \<Rightarrow> nat \<Rightarrow> real" where
  "basisTerm i lck b x y =
     convolveAtAPoint (pix i) (x - lcCtrX lck) (y - lcCtrY lck)
       (rawImage (getKernelList lck ! b) 0 0) (lcWidth lck) (lcHeight lck)
     * (getSpatialFunctionList lck ! b) (indexToPosition x) (indexToPosition y)"

section \<open>Concrete images and kernels\<close>

definition img3 :: "real \<Rightarrow> real Image" where
  "img3 v = \<lparr>getWidth = 3, getHeight = 3, pix = (\<lambda>x y. v)\<rparr>"

definition ramp3 :: "real Image" where
  "ramp3 = \<lparr>getWidth = 3, getHeight = 3, pix = (\<lambda>x y. real x + 3 * real y)\<rparr>"

definition delta3 :: Kernel where
  "delta3 = \<lparr>kernelWidth = 3, kernelHeight = 3, getCtrX = 1, getCtrY = 1,
             isSpatiallyVarying = False, shape = DeltaFunction 1 1\<rparr>"

definition ones3 :: Kernel where
  "ones3 = \<lparr>kernelWidth = 3, kernelHeight = 3, getCtrX = 1, getCtrY = 1,
            isSpatiallyVarying = False, shape = Dense (\<lambda>x y i j. 1)\<rparr>"

definition sep3 :: Kernel where
  "sep3 = \<lparr>kernelWidth = 3, kernelHeight = 3, getCtrX = 1, getCtrY = 1,
           isSpatiallyVarying = False, shape = Separable (\<lambda>x y i. 1 / 3) (\<lambda>x y j. 1 / 3)\<rparr>"

definition lck2 :: LinearCombinationKernel where
  "lck2 = \<lparr>lcWidth = 3, lcHeight = 3, lcCtrX = 1, lcCtrY = 1, lcSpatiallyVarying = True,
           getKernelList = [delta3, ones3],
           getSpatialFunctionList = [\<lambda>x y. 1, \<lambda>x y. x],
           getKernelParameters = []\<rparr>"

section \<open>Interpolated Convolver (ConvolveWithInterpolation.cc)\<close>

record ConvolutionControl =
  getDoNormalize :: bool
  getMaxInterpolationDistance :: int

text \<open>
  A region of the interpolation grid: its bounding box, the kernel, and the four kernel
  images at its corners, as \<open>getImage\<close> returns them.
\<close>

record KernelImagesForRegion =
  getBBox :: BBox
  getKernel :: Kernel
  BOTTOM_LEFT :: KernelImage
  BOTTOM_RIGHT :: KernelImage
  TOP_LEFT :: KernelImage
  TOP_RIGHT :: KernelImage

text \<open>
  Modelled from the spec: \<open>Kernel::shrinkBBox\<close> and \<open>Kernel::growBBox\<close> (Kernel.cc is not
  among the sources).  The first computes the valid (non-border) bounding box and fails with
  the precondition violation of the spec, an input smaller than the kernel in either axis;
  the second is its inverse.
\<close>

definition shrinkBBox :: "Kernel \<Rightarrow> BBox \<Rightarrow> error + BBox" where
  "shrinkBBox krn bbox =
     (if bboxWidth bbox < kernelWidth krn \<or> bboxHeight bbox < kernelHeight krn
      then Inl SmallerThanKernel
      else Inr (mkBBox (getMinX bbox + getCtrX krn) (getMinY bbox + getCtrY krn)
                  (bboxWidth bbox + 1 - kernelWidth krn) (bboxHeight bbox + 1 - kernelHeight krn)))"

definition growBBox :: "Kernel \<Rightarrow> BBox \<Rightarrow> BBox" where
  "growBBox krn bbox =
     mkBBox (getMinX bbox - getCtrX krn) (getMinY bbox - getCtrY krn)
       (bboxWidth bbox + kernelWidth krn - 1) (bboxHeight bbox + kernelHeight krn - 1)"

definition scaledPlus :: "real \<Rightarrow> KernelImage \<Rightarrow> real \<Rightarrow> KernelImage \<Rightarrow> KernelImage" where
  "scaledPlus c1 im1 c2 im2 = (\<lambda>i j. c1 * im1 i j + c2 * im2 i j)"

definition plusImage :: "KernelImage \<Rightarrow> KernelImage \<Rightarrow> KernelImage" where
  "plusImage im1 im2 = (\<lambda>i j. im1 i j + im2 i j)"

text \<open>
  The inner loop of \<open>convolveRegionWithInterpolation\<close> over the columns of one row.  The
  loop has no test at its head: it convolves a pixel, advances, leaves when the column
  index has reached the width of the region, and otherwise adds the delta image to the
  kernel image.  So the first pixel is convolved with the kernel image as it stands, each
  further pixel (columns 1 up to the width) after one more addition of the delta image, and
  the body runs once even when the width of the region is 0.  The state is the output
  pixels and the working kernel image.
\<close>

definition interpolateRow ::
  "real pixels \<Rightarrow> nat \<Rightarrow> nat \<Rightarrow> nat \<Rightarrow> KernelImage \<Rightarrow> nat \<Rightarrow> nat \<Rightarrow> nat \<Rightarrow> nat
     \<Rightarrow> real pixels \<times> KernelImage \<Rightarrow> real pixels \<times> KernelImage" where
  "interpolateRow inp kWidth kHeight width deltaImage inX inY outX outY st =
     fold (\<lambda>i (outp, kernelImage).
             let kernelImage' = plusImage kernelImage deltaImage
             in (setPix outp (outX + i) outY
                   (convolveAtAPoint inp (inX + i) inY kernelImage' kWidth kHeight), kernelImage'))
       [1..<width]
       (setPix (fst st) outX outY (convolveAtAPoint inp inX inY (snd st) kWidth kHeight), snd st)"

text \<open>
  One row of the outer loop: the delta image is computed from the left and right images,
  then the columns are run.  The state is the output pixels and the left, right and kernel
  working images.  The outer loop has the shape of the inner one: after each row but the
  last, the left and right images are advanced by their deltas and the kernel image is
  reset to the left image.
\<close>

definition interpolateRegionRow ::
  "real pixels \<Rightarrow> nat \<Rightarrow> nat \<Rightarrow> nat \<Rightarrow> real \<Rightarrow> nat \<Rightarrow> nat \<Rightarrow> nat \<Rightarrow> nat
     \<Rightarrow> real pixels \<times> KernelImage \<times> KernelImage \<times> KernelImage
     \<Rightarrow> real pixels \<times> KernelImage \<times> KernelImage \<times> KernelImage" where
  "interpolateRegionRow inp kWidth kHeight width xfrac inX inY outX outY st =
     (case st of (outp, leftImage, rightImage, kernelImage) \<Rightarrow>
        let deltaImage = scaledPlus xfrac rightImage (- xfrac) leftImage;
            (outp', kernelImage') =
               interpolateRow inp kWidth kHeight width deltaImage inX inY outX outY (outp, kernelImage)
        in (outp', leftImage, rightImage, kernelImage'))"

definition convolveRegionWithInterpolation ::
  "real Image \<Rightarrow> real Image \<Rightarrow> KernelImagesForRegion \<Rightarrow> real Image" where
  "convolveRegionWithInterpolation outImage inImage region =
     (let kWidth = kernelWidth (getKernel region);
          kHeight = kernelHeight (getKernel region);
          leftImage = BOTTOM_LEFT region;
          rightImage = BOTTOM_RIGHT region;
          kernelImage = leftImage;
          goodBBox = getBBox region;
          fullBBox = growBBox (getKernel region) goodBBox;
          xfrac = 1 / real (bboxWidth goodBBox);
          yfrac = 1 / real (bboxHeight goodBBox);
          leftDeltaImage = scaledPlus yfrac (TOP_LEFT region) (- yfrac) leftImage;
          rightDeltaImage = scaledPlus yfrac (TOP_RIGHT region) (- yfrac) rightImage;
          row = (\<lambda>j. interpolateRegionRow (pix inImage) kWidth kHeight (bboxWidth goodBBox) xfrac
                        (getMinX fullBBox) (getMinY fullBBox + j) (getMinX goodBBox) (getMinY goodBBox + j));
          final = fold (\<lambda>j (outp, leftImage, rightImage, kernelImage).
                          let leftImage' = plusImage leftImage leftDeltaImage;
                              rightImage' = plusImage rightImage rightDeltaImage
                          in row j (outp, leftImage', rightImage', leftImage'))
                    [1..<bboxHeight goodBBox]
                    (row 0 (pix outImage, leftImage, rightImage, kernelImage))
      in outImage\<lparr>pix := fst final\<rparr>)"

text \<open>
  \<open>convolveWithInterpolation\<close>.  The class \<open>KernelImagesForRegion\<close> and its
  \<open>computeNextRow\<close> are not among the sources; the regions they produce, in the order in
  which the loops visit them, are the parameter \<open>regionRows\<close>, which receives what the code
  passes: the kernel, the good bounding box, the normalization flag and the numbers of
  columns and rows.  The origin of the images is (0, 0).  A maximum interpolation distance
  of 0 makes the integer division fail.
\<close>

definition convolveWithInterpolation ::
  "(Kernel \<Rightarrow> BBox \<Rightarrow> bool \<Rightarrow> int \<Rightarrow> int \<Rightarrow> KernelImagesForRegion list)
     \<Rightarrow> real Image \<Rightarrow> real Image \<Rightarrow> Kernel \<Rightarrow> ConvolutionControl \<Rightarrow> real Image \<times> error option" where
  "convolveWithInterpolation regionRows outImage inImage krn convolutionControl =
     (if (getWidth outImage, getHeight outImage) \<noteq> (getWidth inImage, getHeight inImage)
      then (outImage, Some NotSameSize)
      else
        case shrinkBBox krn (mkBBox 0 0 (getWidth outImage) (getHeight outImage)) of
          Inl e \<Rightarrow> (outImage, Some e)
        | Inr goodBBox \<Rightarrow>
            if getMaxInterpolationDistance convolutionControl = 0
            then (outImage, Some DivisionByZero)
            else
              let (nx, ny) = gridDivisions (int (bboxWidth goodBBox)) (int (bboxHeight goodBBox))
                               (getMaxInterpolationDistance convolutionControl)
              in (fold (\<lambda>region out. convolveRegionWithInterpolation out inImage region)
                    (regionRows krn goodBBox (getDoNormalize convolutionControl) nx ny) outImage,
                  None))"

text \<open>
  The bilinear interpolation of the four corner images of a region of width \<open>w\<close> and height
  \<open>h\<close>, at column \<open>i\<close> and row \<open>j\<close> of the region.
\<close>

definition bilinear :: "KernelImagesForRegion \<Rightarrow> nat \<Rightarrow> nat \<Rightarrow> KernelImage" where
  "bilinear region i j =
     (let u = real i / real (bboxWidth (getBBox region));
          v = real j / real (bboxHeight (getBBox region))
      in (\<lambda>a b. (1 - u) * (1 - v) * BOTTOM_LEFT region a b + u * (1 - v) * BOTTOM_RIGHT region a b
                 + (1 - u) * v * TOP_LEFT region a b + u * v * TOP_RIGHT region a b))"

text \<open>
  Modelled from the spec: the region that \<open>KernelImagesForRegion\<close> (not among the sources)
  hands to \<open>convolveRegionWithInterpolation\<close> when the grid has a single region.  It
  covers the whole good area of the image and holds the kernel evaluated exactly, without
  normalization, at its four corners; as the comment in \<open>convolveRegionWithInterpolation\<close>
  says, the top and right images are computed one pixel beyond the boundary of the box.
\<close>

definition wholeRegion :: "real Image \<Rightarrow> Kernel \<Rightarrow> KernelImagesForRegion" where
  "wholeRegion inImage krn =
     (let b = goodRegion (getWidth inImage) (getHeight inImage) krn;
          x0 = indexToPosition (getMinX b);
          x1 = indexToPosition (getMinX b + bboxWidth b);
          y0 = indexToPosition (getMinY b);
          y1 = indexToPosition (getMinY b + bboxHeight b)
      in \<lparr>getBBox = b, getKernel = krn,
          BOTTOM_LEFT = rawImage krn x0 y0, BOTTOM_RIGHT = rawImage krn x1 y0,
          TOP_LEFT = rawImage krn x0 y1, TOP_RIGHT = rawImage krn x1 y1\<rparr>)"

text \<open>A kernel whose weight image is a linear function of the position.\<close>

definition linearKernel :: "Kernel \<Rightarrow> KernelImage \<Rightarrow> KernelImage \<Rightarrow> KernelImage \<Rightarrow> bool" where
  "linearKernel krn A Bx By \<longleftrightarrow>
     isSpatiallyVarying krn \<and> rawImage krn = (\<lambda>x y i j. A i j + x * Bx i j + y * By i j)"

definition lin2 :: Kernel where
  "lin2 = \<lparr>kernelWidth = 2, kernelHeight = 1, getCtrX = 0, getCtrY = 0, isSpatiallyVarying = True,
           shape = Dense (\<lambda>x y i j. (if i = 0 then 1 else 2) + x * (if i = 0 then 1 else 0) + y * 3)\<rparr>"

definition img5x2 :: "real Image" where
  "img5x2 = \<lparr>getWidth = 5, getHeight = 2, pix = (\<lambda>x y. 1)\<rparr>"

definition img2x5 :: "real Image" where
  "img2x5 = \<lparr>getWidth = 2, getHeight = 5, pix = (\<lambda>x y. 1)\<rparr>"

section \<open>Warper (warpExposure.cc)\<close>

text \<open>
  A pixel of a masked image has a value in each of the three planes of
  \<open>MaskedImage<Image, Mask, Variance>\<close>.
\<close>

record MaskedPixel =
  mpImage :: real
  mpMask :: nat
  mpVariance :: real

text \<open>
  Modelled from the spec: the constructor of \<open>SinglePixel\<close>, the pixel type of a masked image
  (lsst/afw/image/Pixel.h is not among the sources).  It takes the values of the planes by
  position, in the order of the planes of \<open>MaskedImage<Image, Mask, Variance>\<close>: image, mask,
  variance; each argument is converted to the type of its plane.
\<close>

definition SinglePixel :: "real \<Rightarrow> nat \<Rightarrow> real \<Rightarrow> MaskedPixel" where
  "SinglePixel imageValue maskValue varianceValue =
     \<lparr>mpImage = imageValue, mpMask = maskValue, mpVariance = varianceValue\<rparr>"

text \<open>
  The coordinate transform is an external collaborator: two mappings between pixel and sky
  positions and the local pixel area.
\<close>

record Wcs =
  xyToRaDec :: "real \<times> real \<Rightarrow> real \<times> real"
  raDecToXY :: "real \<times> real \<Rightarrow> real \<times> real"
  pixArea :: "real \<times> real \<Rightarrow> real"

record Exposure =
  getMaskedImage :: "MaskedPixel Image"
  getWcs :: Wcs

text \<open>
  A warping kernel is a separable kernel with two parameters, the fractional x and y
  position on the source image.  Its kernel functions give the two weight vectors for given
  values of the parameters, and may raise an exception (as \<open>BilinearFunction1\<close> does for an
  argument other than 0 or 1).  The kernel carries the current values of its parameters.
\<close>

record WarpingKernel =
  wkWidth :: nat
  wkHeight :: nat
  wkCtrX :: nat
  wkCtrY :: nat
  wkParameters :: "real \<times> real"
  kernelFunctions :: "real \<times> real \<Rightarrow> error + (real list \<times> real list)"

text \<open>
  Modelled from the spec: \<open>SeparableKernel::computeVectors\<close> without normalization and
  without a position, on a kernel that does not vary spatially: the two weight vectors for
  the current parameters of the kernel, and the kernel sum.
\<close>

definition computeVectorsW :: "WarpingKernel \<Rightarrow> error + (real list \<times> real list \<times> real)" where
  "computeVectorsW wk =
     (case kernelFunctions wk (wkParameters wk) of
        Inl e \<Rightarrow> Inl e
      | Inr (xs, ys) \<Rightarrow> Inr (xs, ys, sum_list xs * sum_list ys))"

definition setKernelParameters :: "WarpingKernel \<Rightarrow> real \<times> real \<Rightarrow> WarpingKernel" where
  "setKernelParameters wk params = wk\<lparr>wkParameters := params\<rparr>"

text \<open>
  Modelled from the spec: \<open>positionToIndex\<close> (ImageUtils.h, not among the sources) splits a
  position into an integer index and a fractional part in [0, 1).
\<close>

definition positionToIndex :: "real \<Rightarrow> int \<times> real" where
  "positionToIndex pos = (\<lfloor>pos\<rfloor>, pos - of_int \<lfloor>pos\<rfloor>)"

text \<open>The position on the source image that a destination pixel maps to.\<close>

definition srcPosOf :: "Wcs \<Rightarrow> Wcs \<Rightarrow> nat \<Rightarrow> nat \<Rightarrow> real \<times> real" where
  "srcPosOf destWcs srcWcs destIndX destIndY =
     (let destPosXY = (indexToPosition destIndX, indexToPosition destIndY);
          raDec = xyToRaDec destWcs destPosXY
      in raDecToXY srcWcs raDec)"

text \<open>The test of \<open>warpExposure\<close> for a destination pixel too near the edge of the source.\<close>

definition tooNearEdge :: "WarpingKernel \<Rightarrow> MaskedPixel Image \<Rightarrow> Wcs \<Rightarrow> Wcs \<Rightarrow> nat \<Rightarrow> nat \<Rightarrow> bool" where
  "tooNearEdge wk srcMI destWcs srcWcs destIndX destIndY =
     (let xBorder0 = int (wkCtrX wk);
          yBorder0 = int (wkCtrY wk);
          xBorder1 = int (wkWidth wk) - (1 + xBorder0);
          yBorder1 = int (wkHeight wk) - (1 + yBorder0);
          srcPosXY = srcPosOf destWcs srcWcs destIndX destIndY;
          srcIndX = fst (positionToIndex (fst srcPosXY));
          srcIndY = fst (positionToIndex (snd srcPosXY))
      in srcIndX - xBorder0 < 0 \<or> srcIndX + xBorder1 \<ge> int (getWidth srcMI)
         \<or> srcIndY - yBorder0 < 0 \<or> srcIndY + yBorder1 \<ge> int (getHeight srcMI))"

text \<open>
  The warped value of a destination pixel that is not too near the edge, given the weight
  vectors and the kernel sum that \<open>computeVectors\<close> returned.  The convolution of masked
  pixels at a point (ConvolveImage.h, not among the sources) is the parameter \<open>cnv\<close>.
\<close>

definition warpedPixel ::
  "(MaskedPixel pixels \<Rightarrow> nat \<Rightarrow> nat \<Rightarrow> real list \<Rightarrow> real list \<Rightarrow> MaskedPixel)
     \<Rightarrow> MaskedPixel Image \<Rightarrow> Wcs \<Rightarrow> Wcs \<Rightarrow> real list \<times> real list \<times> real \<Rightarrow> nat \<Rightarrow> nat \<Rightarrow> MaskedPixel" where
  "warpedPixel cnv srcMI destWcs srcWcs kv destIndX destIndY =
     (case kv of (kernelXList, kernelYList, kSum) \<Rightarrow>
        let destPosXY = (indexToPosition destIndX, indexToPosition destIndY);
            srcPosXY = srcPosOf destWcs srcWcs destIndX destIndY;
            srcIndX = fst (positionToIndex (fst srcPosXY));
            srcIndY = fst (positionToIndex (snd srcPosXY));
            p = cnv (pix srcMI) (nat srcIndX) (nat srcIndY) kernelXList kernelYList;
            multFac = pixArea destWcs destPosXY / (pixArea srcWcs srcPosXY * kSum)
        in p\<lparr>mpImage := mpImage p * multFac, mpVariance := mpVariance p * (multFac * multFac)\<rparr>)"

text \<open>
  The two loops of \<open>warpExposure\<close>, over the destination pixels in row-major order.  The
  state is the pixels of the destination and the count of good pixels.
\<close>

fun warpPixels ::
  "(MaskedPixel pixels \<Rightarrow> nat \<Rightarrow> nat \<Rightarrow> real list \<Rightarrow> real list \<Rightarrow> MaskedPixel)
     \<Rightarrow> MaskedPixel \<Rightarrow> WarpingKernel \<Rightarrow> MaskedPixel Image \<Rightarrow> Wcs \<Rightarrow> Wcs \<Rightarrow> (nat \<times> nat) list
     \<Rightarrow> MaskedPixel pixels \<times> int \<Rightarrow> (MaskedPixel pixels \<times> int) \<times> error option" where
  "warpPixels cnv edgePixel wk srcMI destWcs srcWcs [] st = (st, None)"
| "warpPixels cnv edgePixel wk srcMI destWcs srcWcs ((destIndX, destIndY) # rest) (destP, numGoodPixels) =
     (if tooNearEdge wk srcMI destWcs srcWcs destIndX destIndY
      then warpPixels cnv edgePixel wk srcMI destWcs srcWcs rest
             (setPix destP destIndX destIndY edgePixel, numGoodPixels)
      else
        case computeVectorsW wk of
          Inl e \<Rightarrow> ((destP, numGoodPixels + 1), Some e)
        | Inr kv \<Rightarrow>
            warpPixels cnv edgePixel wk srcMI destWcs srcWcs rest
              (setPix destP destIndX destIndY
                 (warpedPixel cnv srcMI destWcs srcWcs kv destIndX destIndY),
               numGoodPixels + 1))"

definition destPixels :: "nat \<Rightarrow> nat \<Rightarrow> (nat \<times> nat) list" where
  "destPixels destWidth destHeight =
     concat (map (\<lambda>destIndY. map (\<lambda>destIndX. (destIndX, destIndY)) [0..<destWidth]) [0..<destHeight])"

text \<open>
  \<open>warpExposure\<close> returns the destination image as the call leaves it, the number of good
  pixels, and the exception raised, if any.  The mask of the EDGE plane of the source, 0
  when there is none, is the parameter \<open>edgePixelMask\<close>.  The edge pixel is built as the code
  builds it, \<open>edgePixel(0, 0, edgePixelMask)\<close>: the arguments go to \<open>SinglePixel\<close> by position,
  and the third is the mask of the EDGE plane converted to a variance.
\<close>

definition warpExposure ::
  "(MaskedPixel pixels \<Rightarrow> nat \<Rightarrow> nat \<Rightarrow> real list \<Rightarrow> real list \<Rightarrow> MaskedPixel)
     \<Rightarrow> nat \<Rightarrow> Exposure \<Rightarrow> Exposure \<Rightarrow> WarpingKernel \<Rightarrow> (MaskedPixel Image \<times> int) \<times> error option" where
  "warpExposure cnv edgePixelMask destExposure srcExposure warpingKernel =
     (let srcMI = getMaskedImage srcExposure;
          srcWcs = getWcs srcExposure;
          destMI = getMaskedImage destExposure;
          destWcs = getWcs destExposure;
          edgePixel = SinglePixel 0 0 (real edgePixelMask)
      in case warpPixels cnv edgePixel warpingKernel srcMI destWcs srcWcs
                (destPixels (getWidth destMI) (getHeight destMI)) (pix destMI, 0) of
           ((p, numGoodPixels), e) \<Rightarrow> ((destMI\<lparr>pix := p\<rparr>, numGoodPixels), e))"

text \<open>
  Modelled from the spec: the separable point convolution on masked pixels, for the image
  and variance planes; the image plane is the double pass of the Point Convolution
  Primitive, the variance plane the same pass with squared weights, and the mask is left
  empty.
\<close>

definition convolvePlanes :: "MaskedPixel pixels \<Rightarrow> nat \<Rightarrow> nat \<Rightarrow> real list \<Rightarrow> real list \<Rightarrow> MaskedPixel" where
  "convolvePlanes src x0 y0 kXVec kYVec =
     \<lparr>mpImage = convolveAtAPointSeparable (\<lambda>x y. mpImage (src x y)) x0 y0 kXVec kYVec,
      mpMask = 0,
      mpVariance = convolveAtAPointSeparable (\<lambda>x y. mpVariance (src x y)) x0 y0
                     (map (\<lambda>v. v * v) kXVec) (map (\<lambda>v. v * v) kYVec)\<rparr>"

text \<open>
  Concrete exposures: a 2 by 1 destination and a 3 by 3 source; the destination pixel
  (0, 0) maps to the source position (0.25, 0.25), the pixel (1, 0) to (5.25, 0.25), off the
  source; both pixel areas are 1.  The warping kernel is 2 by 1 with centre (0, 0); its
  column weights for the parameter \<open>p\<close> are 1 and \<open>p\<close>, and its parameters are (0, 0).
\<close>

definition identWcs :: Wcs where
  "identWcs = \<lparr>xyToRaDec = (\<lambda>p. p), raDecToXY = (\<lambda>p. p), pixArea = (\<lambda>p. 1)\<rparr>"

definition shiftWcs :: Wcs where
  "shiftWcs = \<lparr>xyToRaDec = (\<lambda>p. p), raDecToXY = (\<lambda>(a, d). (5 * a + 1 / 4, d + 1 / 4)),
               pixArea = (\<lambda>p. 1)\<rparr>"

definition destExp :: Exposure where
  "destExp = \<lparr>getMaskedImage = \<lparr>getWidth = 2, getHeight = 1,
                 pix = (\<lambda>x y. \<lparr>mpImage = 9, mpMask = 0, mpVariance = 9\<rparr>)\<rparr>,
              getWcs = identWcs\<rparr>"

definition srcExp :: Exposure where
  "srcExp = \<lparr>getMaskedImage = \<lparr>getWidth = 3, getHeight = 3,
                pix = (\<lambda>x y. \<lparr>mpImage = 6 + real x, mpMask = 0, mpVariance = 2\<rparr>)\<rparr>,
             getWcs = shiftWcs\<rparr>"

definition wk2 :: WarpingKernel where
  "wk2 = \<lparr>wkWidth = 2, wkHeight = 1, wkCtrX = 0, wkCtrY = 0, wkParameters = (0, 0),
          kernelFunctions = (\<lambda>(p, q). Inr ([1, p], [1]))\<rparr>"

definition wkBad :: WarpingKernel where
  "wkBad = \<lparr>wkWidth = 2, wkHeight = 1, wkCtrX = 0, wkCtrY = 0, wkParameters = (0, 0),
            kernelFunctions = (\<lambda>(p, q). Inl InvalidParameter)\<rparr>"

section \<open>Properties of the Border Filler\<close>

lemma inBBox_mkBBox:
  "inBBox (mkBBox x0 y0 w h) x y \<longleftrightarrow> x0 \<le> x \<and> x < x0 + w \<and> y0 \<le> y \<and> y < y0 + h"
  by (simp add: inBBox_def mkBBox_def)

lemma pix_copyRegion:
  "pix (copyRegion outImage inImage region) x y =
     (if inBBox region x y then pix inImage x y else pix outImage x y)"
  by (simp add: copyRegion_def)

lemma dims_copyRegion:
  "getWidth (copyRegion outImage inImage region) = getWidth outImage"
  "getHeight (copyRegion outImage inImage region) = getHeight outImage"
  by (simp_all add: copyRegion_def)

lemma pix_copyBorder:
  "pix (copyBorder c i k) x y =
     (if inBBox (bottomEdge (getWidth i) (getHeight i) k) x y
        \<or> inBBox (topEdge (getWidth i) (getHeight i) k) x y
        \<or> inBBox (leftEdge (getWidth i) (getHeight i) k) x y
        \<or> inBBox (rightEdge (getWidth i) (getHeight i) k) x y
      then pix i x y else pix c x y)"
  by (simp add: copyBorder_def Let_def pix_copyRegion)

lemma dims_copyBorder:
  "getWidth (copyBorder c i k) = getWidth c" "getHeight (copyBorder c i k) = getHeight c"
  by (simp_all add: copyBorder_def Let_def dims_copyRegion)

lemma copyRegionChecked_fits:
  assumes "0 \<le> x0" "0 \<le> y0" "0 \<le> w" "0 \<le> h"
    and "x0 + w \<le> int (getWidth c)" "y0 + h \<le> int (getHeight c)"
    and "getWidth c = getWidth i" "getHeight c = getHeight i"
  shows "copyRegionChecked c i x0 y0 w h
           = (copyRegion c i (mkBBox (nat x0) (nat y0) (nat w) (nat h)), None)"
  using assms by (simp add: copyRegionChecked_def)

lemma copyBorderChecked_eq:
  assumes "getWidth c = getWidth i" "getHeight c = getHeight i"
    and "kernelWidth k \<le> getWidth i" "kernelHeight k \<le> getHeight i + 1"
    and "getCtrX k < kernelWidth k" "getCtrY k < kernelHeight k"
  shows "copyBorderChecked c i k = (copyBorder c i k, None)"
proof -
  let ?W = "getWidth i" and ?H = "getHeight i"
  let ?nh = "int (kernelHeight k) - (1 + int (getCtrY k))"
  let ?nw = "int (kernelWidth k) - (1 + int (getCtrX k))"
  let ?c1 = "copyRegion c i (bottomEdge ?W ?H k)"
  let ?c2 = "copyRegion ?c1 i (topEdge ?W ?H k)"
  let ?c3 = "copyRegion ?c2 i (leftEdge ?W ?H k)"
  have nh: "?nh = int (kernelHeight k - (1 + getCtrY k))"
    and nw: "?nw = int (kernelWidth k - (1 + getCtrX k))"
    using assms(5,6) by auto
  have top: "int ?H - ?nh = int (?H - (kernelHeight k - (1 + getCtrY k)))"
    and right: "int ?W - ?nw = int (?W - (kernelWidth k - (1 + getCtrX k)))"
    and good: "int ?H + 1 - int (kernelHeight k) = int (?H + 1 - kernelHeight k)"
    using assms(3-6) by auto
  have b1: "mkBBox (nat 0) (nat 0) (nat (int ?W)) (nat (int (getCtrY k))) = bottomEdge ?W ?H k"
    by (simp add: bottomEdge_def)
  have b2: "mkBBox (nat 0) (nat (int ?H - ?nh)) (nat (int ?W)) (nat ?nh) = topEdge ?W ?H k"
    unfolding top unfolding nh by (simp add: topEdge_def Let_def)
  have b3: "mkBBox (nat 0) (nat (int (getCtrY k))) (nat (int (getCtrX k)))
              (nat (int ?H + 1 - int (kernelHeight k))) = leftEdge ?W ?H k"
    unfolding good by (simp add: leftEdge_def)
  have b4: "mkBBox (nat (int ?W - ?nw)) (nat (int (getCtrY k))) (nat ?nw)
              (nat (int ?H + 1 - int (kernelHeight k))) = rightEdge ?W ?H k"
    unfolding right good unfolding nw by (simp add: rightEdge_def Let_def)
  have s1: "copyRegionChecked c i 0 0 (int ?W) (int (getCtrY k)) = (?c1, None)"
    using assms copyRegionChecked_fits [of 0 0 "int ?W" "int (getCtrY k)" c i]
    unfolding b1 by simp
  have s2: "copyRegionChecked ?c1 i 0 (int ?H - ?nh) (int ?W) ?nh = (?c2, None)"
    using assms copyRegionChecked_fits [of 0 "int ?H - ?nh" "int ?W" ?nh ?c1 i]
    unfolding b2 by (simp add: dims_copyRegion)
  have s3: "copyRegionChecked ?c2 i 0 (int (getCtrY k)) (int (getCtrX k))
              (int ?H + 1 - int (kernelHeight k)) = (?c3, None)"
    using assms copyRegionChecked_fits [of 0 "int (getCtrY k)" "int (getCtrX k)"
        "int ?H + 1 - int (kernelHeight k)" ?c2 i]
    unfolding b3 by (simp add: dims_copyRegion)
  have s4: "copyRegionChecked ?c3 i (int ?W - ?nw) (int (getCtrY k)) ?nw
              (int ?H + 1 - int (kernelHeight k)) = (copyRegion ?c3 i (rightEdge ?W ?H k), None)"
    using assms copyRegionChecked_fits [of "int ?W - ?nw" "int (getCtrY k)" ?nw
        "int ?H + 1 - int (kernelHeight k)" ?c3 i]
    unfolding b4 by (simp add: dims_copyRegion)
  show ?thesis
    unfolding copyBorderChecked_def copyBorder_def Let_def
    by (simp only: s1 s2 s3 s4 prod.case option.case)
qed

lemma copyRegionChecked_error:
  "snd (copyRegionChecked c i x0 y0 w h) = Some e \<Longrightarrow> e = LengthError \<or> e = UndefinedBehaviour"
  by (auto simp: copyRegionChecked_def split: if_splits)

lemma copyBorderChecked_error:
  assumes "snd (copyBorderChecked c i k) = Some e"
  shows "e = LengthError \<or> e = UndefinedBehaviour"
proof -
  have pair: "e' = LengthError \<or> e' = UndefinedBehaviour"
    if "copyRegionChecked c' i x0 y0 w h = (c'', Some e')" for c' c'' :: "'a Image" and x0 y0 w h e'
    using copyRegionChecked_error [of c' i x0 y0 w h e'] that by simp
  show ?thesis
    using assms unfolding copyBorderChecked_def Let_def
    by (auto split: prod.splits option.splits dest: pair copyRegionChecked_error)
qed

lemma strips_cover_border:
  assumes "kernelWidth k \<le> w" "kernelHeight k \<le> h"
    and "getCtrX k < kernelWidth k" "getCtrY k < kernelHeight k"
    and "x < w" "y < h"
  shows "stripsHolding w h k x y = (if inBBox (goodRegion w h k) x y then 0 else 1)"
proof -
  have B: "inBBox (bottomEdge w h k) x y \<longleftrightarrow> y < getCtrY k"
    using assms by (auto simp: bottomEdge_def inBBox_mkBBox)
  have T: "inBBox (topEdge w h k) x y \<longleftrightarrow> h + getCtrY k + 1 \<le> y + kernelHeight k"
    using assms by (auto simp: topEdge_def inBBox_mkBBox Let_def)
  have L: "inBBox (leftEdge w h k) x y \<longleftrightarrow>
      x < getCtrX k \<and> getCtrY k \<le> y \<and> y + kernelHeight k < h + getCtrY k + 1"
    using assms by (auto simp: leftEdge_def inBBox_mkBBox)
  have R: "inBBox (rightEdge w h k) x y \<longleftrightarrow>
      w + getCtrX k + 1 \<le> x + kernelWidth k \<and> getCtrY k \<le> y
      \<and> y + kernelHeight k < h + getCtrY k + 1"
    using assms by (auto simp: rightEdge_def inBBox_mkBBox Let_def)
  have G: "inBBox (goodRegion w h k) x y \<longleftrightarrow>
      getCtrX k \<le> x \<and> x + kernelWidth k < w + getCtrX k + 1
      \<and> getCtrY k \<le> y \<and> y + kernelHeight k < h + getCtrY k + 1"
    using assms by (auto simp: goodRegion_def inBBox_mkBBox)
  show ?thesis
    unfolding stripsHolding_def using assms by (simp add: B T L R G)
qed

text \<open>
  Claim C9, as the code has it.  For an image at least as large as the kernel (on a lower
  image a strip does not fit in the image or has a negative extent, and the call ends as
  \<open>copyBorderChecked\<close> says) the four strips are: a bottom strip of height
  \<open>ctrY\<close> and a top strip of height \<open>kernelHeight - 1 - ctrY\<close>, both over the full
  width; a left strip of width \<open>ctrX\<close> and a right strip of width
  \<open>kernelWidth - 1 - ctrX\<close>, both over the rows \<open>ctrY \<le> y < ctrY + (height + 1 - kernelHeight)\<close>
  only.  Every pixel of the image outside the region filled by the convolution lies in
  exactly one strip, every pixel inside it in none, and \<open>copyBorder\<close> overwrites exactly
  the former with the input pixel.
\<close>

theorem copyBorder_strips:
  assumes "kernelWidth k \<le> getWidth inImage" "kernelHeight k \<le> getHeight inImage"
    and "getCtrX k < kernelWidth k" "getCtrY k < kernelHeight k"
  shows "bottomEdge (getWidth inImage) (getHeight inImage) k
           = mkBBox 0 0 (getWidth inImage) (getCtrY k)
       \<and> topEdge (getWidth inImage) (getHeight inImage) k
           = mkBBox 0 (getHeight inImage - (kernelHeight k - 1 - getCtrY k))
               (getWidth inImage) (kernelHeight k - 1 - getCtrY k)
       \<and> leftEdge (getWidth inImage) (getHeight inImage) k
           = mkBBox 0 (getCtrY k) (getCtrX k) (getHeight inImage + 1 - kernelHeight k)
       \<and> rightEdge (getWidth inImage) (getHeight inImage) k
           = mkBBox (getWidth inImage - (kernelWidth k - 1 - getCtrX k)) (getCtrY k)
               (kernelWidth k - 1 - getCtrX k) (getHeight inImage + 1 - kernelHeight k)
       \<and> (\<forall>x y. x < getWidth inImage \<and> y < getHeight inImage \<longrightarrow>
             stripsHolding (getWidth inImage) (getHeight inImage) k x y
               = (if inBBox (goodRegion (getWidth inImage) (getHeight inImage) k) x y then 0 else 1)
           \<and> pix (copyBorder convolvedImage inImage k) x y
               = (if inBBox (goodRegion (getWidth inImage) (getHeight inImage) k) x y
                  then pix convolvedImage x y else pix inImage x y))"
proof -
  have geom: "bottomEdge (getWidth inImage) (getHeight inImage) k
           = mkBBox 0 0 (getWidth inImage) (getCtrY k)"
    "topEdge (getWidth inImage) (getHeight inImage) k
           = mkBBox 0 (getHeight inImage - (kernelHeight k - 1 - getCtrY k))
               (getWidth inImage) (kernelHeight k - 1 - getCtrY k)"
    "leftEdge (getWidth inImage) (getHeight inImage) k
           = mkBBox 0 (getCtrY k) (getCtrX k) (getHeight inImage + 1 - kernelHeight k)"
    "rightEdge (getWidth inImage) (getHeight inImage) k
           = mkBBox (getWidth inImage - (kernelWidth k - 1 - getCtrX k)) (getCtrY k)
               (kernelWidth k - 1 - getCtrX k) (getHeight inImage + 1 - kernelHeight k)"
    by (simp_all add: bottomEdge_def topEdge_def leftEdge_def rightEdge_def Let_def)
  have px: "stripsHolding (getWidth inImage) (getHeight inImage) k x y
               = (if inBBox (goodRegion (getWidth inImage) (getHeight inImage) k) x y then 0 else 1)
           \<and> pix (copyBorder convolvedImage inImage k) x y
               = (if inBBox (goodRegion (getWidth inImage) (getHeight inImage) k) x y
                  then pix convolvedImage x y else pix inImage x y)"
    if "x < getWidth inImage" "y < getHeight inImage" for x y
  proof -
    have s: "stripsHolding (getWidth inImage) (getHeight inImage) k x y
               = (if inBBox (goodRegion (getWidth inImage) (getHeight inImage) k) x y then 0 else 1)"
      using strips_cover_border [OF assms that] .
    have "(inBBox (bottomEdge (getWidth inImage) (getHeight inImage) k) x y
        \<or> inBBox (topEdge (getWidth inImage) (getHeight inImage) k) x y
        \<or> inBBox (leftEdge (getWidth inImage) (getHeight inImage) k) x y
        \<or> inBBox (rightEdge (getWidth inImage) (getHeight inImage) k) x y)
        \<longleftrightarrow> \<not> inBBox (goodRegion (getWidth inImage) (getHeight inImage) k) x y"
      using s unfolding stripsHolding_def by (auto split: if_splits)
    then show ?thesis using s by (simp add: pix_copyBorder)
  qed
  show ?thesis using geom px by blast
qed

theorem copyBorder_strips_witness:
  "stripsHolding 3 3 box3 0 0 = 1 \<and> stripsHolding 3 3 box3 1 1 = 0
     \<and> leftEdge 3 3 box3 = mkBBox 0 1 1 1
     \<and> pix (copyBorder \<lparr>getWidth = 3, getHeight = 3, pix = (\<lambda>x y. 0::real)\<rparr>
              \<lparr>getWidth = 3, getHeight = 3, pix = (\<lambda>x y. 5)\<rparr> box3) 0 0 = 5"
  using copyBorder_strips [of box3 "\<lparr>getWidth = 3, getHeight = 3, pix = (\<lambda>x y. 5::real)\<rparr>"
      "\<lparr>getWidth = 3, getHeight = 3, pix = (\<lambda>x y. 0::real)\<rparr>"]
  by (simp add: box3_def goodRegion_def inBBox_mkBBox)

text \<open>
  Claim C9, as the spec words it, asks the left and right strips to span the full height,
  so that a corner pixel is written twice.  For a 3 by 3 image and a 3 by 3 kernel centred
  at (1, 1) the left strip is the single pixel (0, 1): its height is 1, not 3, and the
  corner (0, 0) lies in one strip only.
\<close>

theorem copyBorder_corner_written_once:
  "bboxHeight (leftEdge 3 3 box3) = 1 \<and> \<not> inBBox (leftEdge 3 3 box3) 0 0
     \<and> stripsHolding 3 3 box3 0 0 = 1"
  by (simp add: leftEdge_def rightEdge_def topEdge_def bottomEdge_def stripsHolding_def
      box3_def inBBox_def mkBBox_def)

section \<open>Properties of the interpolation grid\<close>

lemma cdiv_nonneg: "0 \<le> a \<Longrightarrow> 0 < b \<Longrightarrow> cdiv a b = a div b"
  by (cases "a = 0") (simp_all add: cdiv_def)

lemma subregionLengths_le:
  assumes "0 < d" "l \<in> set (subregionLengths len (1 + len div d))"
  shows "l \<le> d"
proof -
  let ?n = "1 + len div d"
  have lt: "len < ?n * d"
    using assms(1) by (metis dividend_less_times_div mult.commute mult_Suc plus_1_eq_Suc)
  have "len div ?n < d"
    using lt assms(1) by (simp add: less_mult_imp_div_less mult.commute)
  moreover have "l \<le> len div ?n + 1"
    using assms(2) by (auto simp: subregionLengths_def)
  ultimately show ?thesis by simp
qed

lemma subregionLengths_sum:
  assumes "0 < n" shows "sum_list (subregionLengths len n) = len"
proof -
  have "sum_list (subregionLengths len n) = (\<Sum>i<n. len div n + (if i < len mod n then 1 else 0))"
    by (simp add: subregionLengths_def interv_sum_list_conv_sum_set_nat atLeast0LessThan)
  also have "\<dots> = n * (len div n) + (\<Sum>i<n. if i < len mod n then 1 else 0)"
    by (simp add: sum.distrib)
  also have "(\<Sum>i<n. if i < len mod n then 1 else (0::nat)) = card ({..<n} \<inter> {i. i < len mod n})"
    by (simp add: sum.If_cases Int_def)
  also have "{..<n} \<inter> {i. i < len mod n} = {..<len mod n}"
    using assms by (auto intro: less_trans [OF _ mod_less_divisor])
  finally show ?thesis by simp
qed

text \<open>
  Claim C7.  For a valid area of width \<open>W\<close> and height \<open>H\<close> and a positive maximum
  interpolation distance \<open>d\<close>, the grid has \<open>1 + floor (W / d)\<close> columns and
  \<open>1 + floor (H / d)\<close> rows; the columns and rows into which the valid area is divided
  add up to the valid area, and none is wider or higher than \<open>d\<close>.
\<close>

theorem gridDivisions_bound:
  assumes "0 \<le> W" "0 \<le> H" "0 < d"
  shows "gridDivisions W H d
           = (1 + \<lfloor>real_of_int W / real_of_int d\<rfloor>, 1 + \<lfloor>real_of_int H / real_of_int d\<rfloor>)
       \<and> (\<forall>l \<in> set (subregionLengths (nat W) (nat (fst (gridDivisions W H d)))). int l \<le> d)
       \<and> (\<forall>l \<in> set (subregionLengths (nat H) (nat (snd (gridDivisions W H d)))). int l \<le> d)
       \<and> sum_list (subregionLengths (nat W) (nat (fst (gridDivisions W H d)))) = nat W
       \<and> sum_list (subregionLengths (nat H) (nat (snd (gridDivisions W H d)))) = nat H"
proof -
  have nx: "nat (1 + cdiv a d) = 1 + nat a div nat d" if "0 \<le> a" for a
    using that assms(3) by (simp add: cdiv_nonneg nat_add_distrib nat_div_distrib pos_imp_zdiv_nonneg_iff)
  have le: "int l \<le> d" if "0 \<le> a" "l \<in> set (subregionLengths (nat a) (nat (1 + cdiv a d)))" for a l
  proof -
    have "l \<le> nat d"
      using subregionLengths_le [of "nat d" l "nat a"] that assms(3) by (simp add: nx)
    then show ?thesis using assms(3) by simp
  qed
  have sm: "sum_list (subregionLengths (nat a) (nat (1 + cdiv a d))) = nat a" if "0 \<le> a" for a
    using that by (simp add: nx subregionLengths_sum)
  show ?thesis
    using assms le sm by (simp add: gridDivisions_def cdiv_nonneg floor_divide_of_int_eq)
qed

theorem gridDivisions_bound_witness:
  "gridDivisions 10 7 4 = (3, 2) \<and> subregionLengths 10 3 = [4, 3, 3] \<and> subregionLengths 7 2 = [4, 3]"
  using gridDivisions_bound [of 10 7 4]
  by (simp add: gridDivisions_def cdiv_def subregionLengths_def upt_rec)

section \<open>Properties of the Basic Convolver\<close>

lemma not_dimensionsLess [simp]:
  "kw \<le> w \<Longrightarrow> kh \<le> h \<Longrightarrow> \<not> dimensionsLess (w, h) (kw, kh)"
  by (auto simp: dimensionsLess_def)

lemma setPix_apply: "setPix p x y v x' y' = (if x' = x \<and> y' = y then v else p x' y')"
  by (simp add: setPix_def)

lemma fold_setPix_range:
  "fold (\<lambda>x p. setPix p x y (g x (p x y))) [a..<b] p x' y' =
     (if y' = y \<and> a \<le> x' \<and> x' < b then g x' (p x' y') else p x' y')"
proof (induction b)
  case 0
  show ?case by auto
next
  case (Suc b)
  show ?case
  proof (cases "a \<le> b")
    case True
    then show ?thesis using Suc by (auto simp: setPix_apply)
  next
    case False
    then show ?thesis by auto
  qed
qed

lemma fold_setPix_offset:
  "fold (\<lambda>x p. setPix p (a + x) y (g x (p (a + x) y))) [0..<n] p x' y' =
     (if y' = y \<and> a \<le> x' \<and> x' < a + n then g (x' - a) (p x' y') else p x' y')"
proof (induction n)
  case 0
  show ?case by auto
next
  case (Suc n)
  then show ?case by (auto simp: setPix_apply)
qed

lemma fold_rows_range:
  assumes "\<And>y p x' y'. F y p x' y' = (if y' = y then G y x' (p x' y') else p x' y')"
  shows "fold F [a..<b] p x' y' = (if a \<le> y' \<and> y' < b then G y' x' (p x' y') else p x' y')"
proof (induction b)
  case 0
  show ?case by auto
next
  case (Suc b)
  show ?case
  proof (cases "a \<le> b")
    case True
    then show ?thesis using Suc by (auto simp: assms)
  next
    case False
    then show ?thesis by auto
  qed
qed

lemma fold_rows_offset:
  assumes "\<And>y p x' y'. F y p x' y' = (if y' = c + y then G y x' (p x' y') else p x' y')"
  shows "fold F [0..<n] p x' y' =
           (if c \<le> y' \<and> y' < c + n then G (y' - c) x' (p x' y') else p x' y')"
proof (induction n)
  case 0
  show ?case by auto
next
  case (Suc n)
  then show ?case by (auto simp: assms)
qed

lemma fold_accumulate:
  assumes "\<And>k q. F k q x' y' = (if C then q x' y' + R k else q x' y')"
  shows "fold F [0..<n] q x' y' = (if C then q x' y' + (\<Sum>k\<leftarrow>[0..<n]. R k) else (q x' y' :: real))"
  by (induction n) (simp_all add: assms)

lemma fold_kernel_row:
  "fold (\<lambda>x locOutPixel. let kVal = kernelRow x
                          in if kVal \<noteq> 0 then locOutPixel + f x * kVal else locOutPixel)
     [0..<n] (v::real) = v + (\<Sum>x\<leftarrow>[0..<n]. f x * kernelRow x)"
  by (induction n) (simp_all add: Let_def)

lemma pix_convolveOneKernelRow:
  "convolveOneKernelRow outp ox oy inp ix iy kernelRow kWidth x' y' =
     (if x' = ox \<and> y' = oy then outp ox oy + (\<Sum>x\<leftarrow>[0..<kWidth]. inp (ix + x) iy * kernelRow x)
      else outp x' y')"
  by (simp add: convolveOneKernelRow_def setPix_apply fold_kernel_row)

lemma fill_rect_range:
  "fold (\<lambda>y. fold (\<lambda>x p. setPix p x y (g x y)) [x0..<x1]) [y0..<y1] p x' y' =
     (if x0 \<le> x' \<and> x' < x1 \<and> y0 \<le> y' \<and> y' < y1 then g x' y' else p x' y')"
proof -
  have row: "fold (\<lambda>x p. setPix p x y (g x y)) [x0..<x1] p x' y' =
      (if y' = y then (if x0 \<le> x' \<and> x' < x1 then g x' y else p x' y') else p x' y')" for y p x' y'
    using fold_setPix_range [of y "\<lambda>x _. g x y" x0 x1 p x' y'] by simp
  show ?thesis
    using fold_rows_range [of "\<lambda>y. fold (\<lambda>x p. setPix p x y (g x y)) [x0..<x1]"
        "\<lambda>y x' v. if x0 \<le> x' \<and> x' < x1 then g x' y else v" y0 y1 p x' y', OF row]
    by simp
qed

lemma pix_basicConvolveGeneral_varying:
  assumes "getWidth c = getWidth i" "getHeight c = getHeight i"
    and "kernelWidth k \<le> getWidth i" "kernelHeight k \<le> getHeight i"
    and "isSpatiallyVarying k"
  shows "basicConvolveGeneral c i k dn =
     (c\<lparr>pix := (\<lambda>x y. if inBBox (goodRegion (getWidth i) (getHeight i) k) x y
          then (let v = convolveAtAPoint (pix i) (x - getCtrX k) (y - getCtrY k)
                          (rawImage k (indexToPosition x) (indexToPosition y))
                          (kernelWidth k) (kernelHeight k)
                in if dn then v / kernelSum (rawImage k (indexToPosition x) (indexToPosition y))
                                   (kernelWidth k) (kernelHeight k)
                   else v)
          else pix c x y)\<rparr>, None)"
proof -
  have "fold (\<lambda>cnvY. fold (\<lambda>cnvX p.
           let (kernelImage, kSum) = computeImage k False (indexToPosition cnvX) (indexToPosition cnvY);
               v = convolveAtAPoint (pix i) (cnvX - getCtrX k) (cnvY - getCtrY k)
                     kernelImage (kernelWidth k) (kernelHeight k)
           in setPix p cnvX cnvY (if dn then v / kSum else v)) [x0..<x1]) [y0..<y1] p
        = (\<lambda>x y. if x0 \<le> x \<and> x < x1 \<and> y0 \<le> y \<and> y < y1
             then (let v = convolveAtAPoint (pix i) (x - getCtrX k) (y - getCtrY k)
                          (rawImage k (indexToPosition x) (indexToPosition y))
                          (kernelWidth k) (kernelHeight k)
                in if dn then v / kernelSum (rawImage k (indexToPosition x) (indexToPosition y))
                                   (kernelWidth k) (kernelHeight k)
                   else v)
             else p x y)" for x0 x1 y0 y1 p
    using fill_rect_range [of "\<lambda>x y. (let v = convolveAtAPoint (pix i) (x - getCtrX k) (y - getCtrY k)
                          (rawImage k (indexToPosition x) (indexToPosition y))
                          (kernelWidth k) (kernelHeight k)
                in if dn then v / kernelSum (rawImage k (indexToPosition x) (indexToPosition y))
                                   (kernelWidth k) (kernelHeight k)
                   else v)" x0 x1 y0 y1 p]
    by (intro ext) (simp add: computeImage_def Let_def)
  then show ?thesis
    using assms by (simp add: basicConvolveGeneral_def Let_def goodRegion_def inBBox_mkBBox)
qed

lemma kernel_row_pass:
  "fold (\<lambda>x q. convolveOneKernelRow q (sx + x) cnvY inp x iy krow kw) [0..<cw] q x' y' =
     (if y' = cnvY \<and> sx \<le> x' \<and> x' < sx + cw
      then q x' y' + (\<Sum>kx\<leftarrow>[0..<kw]. inp (x' - sx + kx) iy * krow kx) else q x' y')"
proof -
  have "(\<lambda>x q. convolveOneKernelRow q (sx + x) cnvY inp x iy krow kw)
      = (\<lambda>x q. setPix q (sx + x) cnvY
            ((\<lambda>x v. v + (\<Sum>kx\<leftarrow>[0..<kw]. inp (x + kx) iy * krow kx)) x (q (sx + x) cnvY)))"
    by (intro ext) (simp add: convolveOneKernelRow_def fold_kernel_row)
  then show ?thesis
    using fold_setPix_offset [of sx cnvY
        "\<lambda>x v. v + (\<Sum>kx\<leftarrow>[0..<kw]. inp (x + kx) iy * krow kx)" cw q x' y']
    by simp
qed

lemma general_row_body:
  "fold (\<lambda>kernelY. fold (\<lambda>x q. convolveOneKernelRow q (sx + x) cnvY inp x (inStartY + kernelY)
                              (\<lambda>kx. K kx kernelY) kw) [0..<cw])
     [0..<kh] (fold (\<lambda>x q. setPix q x cnvY 0) [sx..<W] p) x' y' =
   (if y' = cnvY
    then (if sx \<le> x' \<and> x' < sx + cw
          then (if x' < W then 0 else p x' y') + convolveAtAPoint inp (x' - sx) inStartY K kw kh
          else if sx \<le> x' \<and> x' < W then 0 else p x' y')
    else p x' y')"
proof -
  let ?z = "fold (\<lambda>x q. setPix q x cnvY 0) [sx..<W] p"
  have z: "?z x' y' = (if y' = cnvY \<and> sx \<le> x' \<and> x' < W then 0 else p x' y')"
    using fold_setPix_range [of cnvY "\<lambda>_ _. 0" sx W p x' y'] by simp
  have acc: "fold (\<lambda>kernelY. fold (\<lambda>x q. convolveOneKernelRow q (sx + x) cnvY inp x
                 (inStartY + kernelY) (\<lambda>kx. K kx kernelY) kw) [0..<cw]) [0..<kh] ?z x' y'
      = (if y' = cnvY \<and> sx \<le> x' \<and> x' < sx + cw
         then ?z x' y' + (\<Sum>ky\<leftarrow>[0..<kh]. \<Sum>kx\<leftarrow>[0..<kw]. inp (x' - sx + kx) (inStartY + ky) * K kx ky)
         else ?z x' y')"
    by (rule fold_accumulate) (rule kernel_row_pass)
  show ?thesis
    unfolding acc z by (simp add: convolveAtAPoint_def)
qed

lemma pix_basicConvolveGeneral_invariant:
  assumes "getWidth c = getWidth i" "getHeight c = getHeight i"
    and "kernelWidth k \<le> getWidth i" "kernelHeight k \<le> getHeight i"
    and "getCtrX k < kernelWidth k"
    and "\<not> isSpatiallyVarying k"
  shows "basicConvolveGeneral c i k dn =
     (c\<lparr>pix := (\<lambda>x y.
          if getCtrY k \<le> y \<and> y < getCtrY k + (getHeight i + 1 - kernelHeight k)
          then (if getCtrX k \<le> x \<and> x < getCtrX k + (getWidth i + 1 - kernelWidth k)
                then convolveAtAPoint (pix i) (x - getCtrX k) (y - getCtrY k)
                       (fst (computeImage k dn 0 0)) (kernelWidth k) (kernelHeight k)
                else if getCtrX k \<le> x \<and> x < getWidth i then 0 else pix c x y)
          else pix c x y)\<rparr>, None)"
proof -
  let ?K = "fst (computeImage k dn 0 0)"
  let ?sx = "getCtrX k" and ?sy = "getCtrY k"
  let ?cw = "getWidth i + 1 - kernelWidth k" and ?ch = "getHeight i + 1 - kernelHeight k"
  let ?body = "\<lambda>inStartY p.
       fold (\<lambda>kernelY. fold (\<lambda>x q. convolveOneKernelRow q (?sx + x) (?sy + inStartY) (pix i) x
                 (inStartY + kernelY) (\<lambda>kx. ?K kx kernelY) (kernelWidth k)) [0..<?cw])
         [0..<kernelHeight k] (fold (\<lambda>x q. setPix q x (?sy + inStartY) 0) [?sx..<getWidth i] p)"
  let ?G = "\<lambda>inStartY x' v.
       (if ?sx \<le> x' \<and> x' < ?sx + ?cw
        then convolveAtAPoint (pix i) (x' - ?sx) inStartY ?K (kernelWidth k) (kernelHeight k)
        else if ?sx \<le> x' \<and> x' < getWidth i then 0 else v)"
  have lt: "?sx + ?cw \<le> getWidth i"
    using assms by simp
  have body: "?body y p x' y' = (if y' = ?sy + y then ?G y x' (p x' y') else p x' y')" for y p x' y'
    using lt by (simp add: general_row_body)
  have "fold ?body [0..<?ch] p = (\<lambda>x' y'. if ?sy \<le> y' \<and> y' < ?sy + ?ch
            then ?G (y' - ?sy) x' (p x' y') else p x' y')" for p
    by (intro ext) (rule fold_rows_offset [of ?body ?sy ?G, OF body])
  then show ?thesis
    using assms by (simp add: basicConvolveGeneral_def Let_def)
qed

lemma fill_rect_offset:
  "fold (\<lambda>y. fold (\<lambda>x p. setPix p (sx + x) (sy + y) (g x y)) [0..<cw]) [0..<ch] p x' y' =
     (if sx \<le> x' \<and> x' < sx + cw \<and> sy \<le> y' \<and> y' < sy + ch then g (x' - sx) (y' - sy)
      else p x' y')"
proof -
  have row: "fold (\<lambda>x p. setPix p (sx + x) (sy + y) (g x y)) [0..<cw] p x' y' =
      (if y' = sy + y then (if sx \<le> x' \<and> x' < sx + cw then g (x' - sx) y else p x' y')
       else p x' y')" for y p x' y'
    using fold_setPix_offset [of sx "sy + y" "\<lambda>x _. g x y" cw p x' y'] by simp
  show ?thesis
    using fold_rows_offset [of "\<lambda>y. fold (\<lambda>x p. setPix p (sx + x) (sy + y) (g x y)) [0..<cw]"
        sy "\<lambda>y x' v. if sx \<le> x' \<and> x' < sx + cw then g (x' - sx) y else v" ch p x' y', OF row]
    by simp
qed

lemma pix_basicConvolveDelta:
  assumes "getWidth c = getWidth i" "getHeight c = getHeight i"
    and "kernelWidth k \<le> getWidth i" "kernelHeight k \<le> getHeight i"
    and "\<not> isSpatiallyVarying k"
  shows "basicConvolveDelta c i k px py dn =
     (c\<lparr>pix := (\<lambda>x y. if inBBox (goodRegion (getWidth i) (getHeight i) k) x y
          then pix i (px + (x - getCtrX k)) (py + (y - getCtrY k)) else pix c x y)\<rparr>, None)"
proof -
  have "fold (\<lambda>y. fold (\<lambda>x p. setPix p (sx + x) (y + sy) (pix i (px + x) (y + py))) [0..<cw])
          [0..<ch] p
      = (\<lambda>x' y'. if sx \<le> x' \<and> x' < sx + cw \<and> sy \<le> y' \<and> y' < sy + ch
           then pix i (px + (x' - sx)) (py + (y' - sy)) else p x' y')" for sx sy cw ch p
    using fill_rect_offset [of sx sy "\<lambda>x y. pix i (px + x) (y + py)" cw ch p]
    by (intro ext) (simp add: add.commute)
  then show ?thesis
    using assms by (simp add: basicConvolveDelta_def Let_def goodRegion_def inBBox_mkBBox)
qed

lemma pix_basicConvolveSeparable_invariant:
  assumes "getWidth c = getWidth i" "getHeight c = getHeight i"
    and "kernelWidth k \<le> getWidth i" "kernelHeight k \<le> getHeight i"
    and "\<not> isSpatiallyVarying k"
  shows "basicConvolveSeparable c i k fx fy dn =
     (c\<lparr>pix := (\<lambda>x y. if inBBox (goodRegion (getWidth i) (getHeight i) k) x y
          then convolveAtAPointSeparable (pix i) (x - getCtrX k) (y - getCtrY k)
                 (fst (computeVectors fx fy (kernelWidth k) (kernelHeight k) dn 0 0))
                 (fst (snd (computeVectors fx fy (kernelWidth k) (kernelHeight k) dn 0 0)))
          else pix c x y)\<rparr>, None)"
proof -
  have row: "fold (\<lambda>x p. setPix p (sx + x) y (convolveAtAPointSeparable (pix i) x (y - sy) xs ys))
              [0..<cw] p x' y' =
      (if y' = y then (if sx \<le> x' \<and> x' < sx + cw
                       then convolveAtAPointSeparable (pix i) (x' - sx) (y - sy) xs ys else p x' y')
       else p x' y')" for y p x' y' sx sy cw xs ys
    using fold_setPix_offset [of sx y
        "\<lambda>x _. convolveAtAPointSeparable (pix i) x (y - sy) xs ys" cw p x' y'] by simp
  have "fold (\<lambda>y. fold (\<lambda>x p. setPix p (sx + x) y
                 (convolveAtAPointSeparable (pix i) x (y - sy) xs ys)) [0..<cw]) [sy..<ey] p
      = (\<lambda>x' y'. if sx \<le> x' \<and> x' < sx + cw \<and> sy \<le> y' \<and> y' < ey
           then convolveAtAPointSeparable (pix i) (x' - sx) (y' - sy) xs ys else p x' y')"
    for sx sy cw ey xs ys p
    using fold_rows_range [of "\<lambda>y. fold (\<lambda>x p. setPix p (sx + x) y
                 (convolveAtAPointSeparable (pix i) x (y - sy) xs ys)) [0..<cw]"
        "\<lambda>y x' v. if sx \<le> x' \<and> x' < sx + cw
                   then convolveAtAPointSeparable (pix i) (x' - sx) (y - sy) xs ys else v"
        sy ey p, OF row]
    by (intro ext) simp
  then show ?thesis
    using assms
    by (simp add: basicConvolveSeparable_def Let_def goodRegion_def inBBox_mkBBox split_beta)
qed

lemma sum_list_upt: "(\<Sum>i\<leftarrow>[0..<n]. f i) = (\<Sum>i<n. (f i :: real))"
  by (simp add: interv_sum_list_conv_sum_set_nat atLeast0LessThan)

lemma convolveAtAPoint_sum:
  "convolveAtAPoint inp x0 y0 kim kw kh = (\<Sum>j<kh. \<Sum>i<kw. inp (x0 + i) (y0 + j) * kim i j)"
  by (simp add: convolveAtAPoint_def sum_list_upt)

lemma kernelSum_sum: "kernelSum im w h = (\<Sum>j<h. \<Sum>i<w. im i j)"
  by (simp add: kernelSum_def sum_list_upt)

lemma sum_delta_lessThan:
  "(\<Sum>i<(n::nat). if i = a then f i else 0) = (if a < n then (f a :: real) else 0)"
  using sum.delta [of "{..<n}" a f] by simp

lemma sum_delta2:
  assumes "px < (kw::nat)" "py < (kh::nat)"
  shows "(\<Sum>j<kh. \<Sum>i<kw. f i j * (if i = px \<and> j = py then 1 else 0)) = (f px py :: real)"
proof -
  have pt: "f i j * (if i = px \<and> j = py then 1 else 0)
      = (if j = py then (if i = px then f i j else 0) else 0)" for i j
    by simp
  have inner: "(\<Sum>i<kw. if j = py then (if i = px then f i j else 0) else 0)
      = (if j = py then f px j else 0)" for j
    using assms(1) sum_delta_lessThan [where n = kw and a = px and f = "\<lambda>i. f i j"] by simp
  show ?thesis
    unfolding pt inner
    using assms(2) sum_delta_lessThan [where n = kh and a = py and f = "\<lambda>j. f px j"] by simp
qed

lemma rawImage_delta_convolve:
  assumes "shape k = DeltaFunction px py" "px < kernelWidth k" "py < kernelHeight k"
  shows "convolveAtAPoint inp x0 y0 (fst (computeImage k dn x y)) (kernelWidth k) (kernelHeight k)
           = inp (x0 + px) (y0 + py)"
proof -
  have raw: "rawImage k x y = (\<lambda>i j. if i = px \<and> j = py then 1 else 0)"
    using assms by (simp add: rawImage_def)
  have ks: "kernelSum (\<lambda>i j. if i = px \<and> j = py then 1 else 0) (kernelWidth k) (kernelHeight k) = 1"
    unfolding kernelSum_sum using sum_delta2 [OF assms(2,3), of "\<lambda>_ _. 1"] by simp
  show ?thesis
    using sum_delta2 [OF assms(2,3), of "\<lambda>i j. inp (x0 + i) (y0 + j)"]
    by (simp add: computeImage_def Let_def ks convolveAtAPoint_sum raw)
qed

lemma separable_convolve:
  assumes "shape k = Separable fx fy"
  shows "convolveAtAPointSeparable inp x0 y0
           (fst (computeVectors fx fy (kernelWidth k) (kernelHeight k) dn x y))
           (fst (snd (computeVectors fx fy (kernelWidth k) (kernelHeight k) dn x y)))
         = convolveAtAPoint inp x0 y0 (fst (computeImage k dn x y)) (kernelWidth k) (kernelHeight k)"
proof -
  let ?w = "kernelWidth k" and ?h = "kernelHeight k"
  have raw: "rawImage k x y = (\<lambda>i j. fx x y i * fy x y j)"
    using assms by (simp add: rawImage_def)
  have ks: "kernelSum (\<lambda>i j. fx x y i * fy x y j) ?w ?h = (\<Sum>i<?w. fx x y i) * (\<Sum>j<?h. fy x y j)"
    unfolding kernelSum_sum by (simp add: sum_product sum.swap [of _ "{..<?h}"] mult.commute)
  have sep: "convolveAtAPointSeparable inp x0 y0 (map a [0..<?w]) (map b [0..<?h])
      = (\<Sum>j<?h. \<Sum>i<?w. inp (x0 + i) (y0 + j) * (a i * b j))" for a b :: "nat \<Rightarrow> real"
    by (simp add: convolveAtAPointSeparable_def sum_list_upt sum_distrib_left mult_ac)
  show ?thesis
  proof (cases dn)
    case False
    then show ?thesis
      using sep [of "fx x y" "fy x y"]
      by (simp add: computeVectors_def Let_def computeImage_def raw convolveAtAPoint_sum)
  next
    case True
    have "convolveAtAPointSeparable inp x0 y0
           (map (\<lambda>v. v / (\<Sum>i<?w. fx x y i)) (map (fx x y) [0..<?w]))
           (map (\<lambda>v. v / (\<Sum>j<?h. fy x y j)) (map (fy x y) [0..<?h]))
        = (\<Sum>j<?h. \<Sum>i<?w. inp (x0 + i) (y0 + j)
              * (fx x y i * fy x y j / ((\<Sum>i<?w. fx x y i) * (\<Sum>j<?h. fy x y j))))"
      using sep [of "\<lambda>i. fx x y i / (\<Sum>i<?w. fx x y i)" "\<lambda>j. fy x y j / (\<Sum>j<?h. fy x y j)"]
      by (simp add: o_def)
    then show ?thesis
      using True
      by (simp add: computeVectors_def Let_def computeImage_def raw ks convolveAtAPoint_sum
          sum_list_upt)
  qed
qed

section \<open>Properties of the Linear-Combination Convolver\<close>

lemma inBBox_goodRegion:
  "inBBox (goodRegion w h k) x y \<longleftrightarrow>
     getCtrX k \<le> x \<and> x < getCtrX k + (w + 1 - kernelWidth k)
     \<and> getCtrY k \<le> y \<and> y < getCtrY k + (h + 1 - kernelHeight k)"
  by (simp add: goodRegion_def inBBox_mkBBox)

lemma basicConvolve_invariant_kernel:
  assumes "kernel_wf k" "\<not> isSpatiallyVarying k"
    and "getWidth c = getWidth i" "getHeight c = getHeight i"
    and "kernelWidth k \<le> getWidth i" "kernelHeight k \<le> getHeight i"
  shows "snd (basicConvolve c i k dn) = None"
    and "getWidth (fst (basicConvolve c i k dn)) = getWidth c"
    and "getHeight (fst (basicConvolve c i k dn)) = getHeight c"
    and "inBBox (goodRegion (getWidth i) (getHeight i) k) x y \<Longrightarrow>
           pix (fst (basicConvolve c i k dn)) x y
             = convolveAtAPoint (pix i) (x - getCtrX k) (y - getCtrY k)
                 (fst (computeImage k dn 0 0)) (kernelWidth k) (kernelHeight k)"
proof -
  have ctr: "getCtrX k < kernelWidth k"
    using assms(1) by (simp add: kernel_wf_def)
  show "snd (basicConvolve c i k dn) = None"
    using assms ctr
    by (cases "shape k")
      (simp_all add: basicConvolve_def pix_basicConvolveDelta pix_basicConvolveSeparable_invariant
        pix_basicConvolveGeneral_invariant)
  show "getWidth (fst (basicConvolve c i k dn)) = getWidth c"
    using assms ctr
    by (cases "shape k")
      (simp_all add: basicConvolve_def pix_basicConvolveDelta pix_basicConvolveSeparable_invariant
        pix_basicConvolveGeneral_invariant)
  show "getHeight (fst (basicConvolve c i k dn)) = getHeight c"
    using assms ctr
    by (cases "shape k")
      (simp_all add: basicConvolve_def pix_basicConvolveDelta pix_basicConvolveSeparable_invariant
        pix_basicConvolveGeneral_invariant)
  show "pix (fst (basicConvolve c i k dn)) x y
             = convolveAtAPoint (pix i) (x - getCtrX k) (y - getCtrY k)
                 (fst (computeImage k dn 0 0)) (kernelWidth k) (kernelHeight k)"
    if good: "inBBox (goodRegion (getWidth i) (getHeight i) k) x y"
  proof (cases "shape k")
    case (DeltaFunction px py)
    have "px < kernelWidth k" "py < kernelHeight k"
      using assms(1) DeltaFunction by (simp_all add: kernel_wf_def)
    then show ?thesis
      using assms good DeltaFunction rawImage_delta_convolve [OF DeltaFunction, of "pix i"]
      by (simp add: basicConvolve_def pix_basicConvolveDelta add.commute)
  next
    case (Separable fx fy)
    then show ?thesis
      using assms good separable_convolve [OF Separable, of "pix i"]
      by (simp add: basicConvolve_def pix_basicConvolveSeparable_invariant)
  next
    case (Dense f)
    then show ?thesis
      using assms good ctr
      by (simp add: basicConvolve_def pix_basicConvolveGeneral_invariant inBBox_goodRegion)
  qed
qed

lemma accumulate_rect_range:
  "fold (\<lambda>y. fold (\<lambda>x q. setPix q x y (q x y + g x y)) [x0..<x1]) [y0..<y1] p x' y' =
     (if x0 \<le> x' \<and> x' < x1 \<and> y0 \<le> y' \<and> y' < y1 then p x' y' + g x' y' else (p x' y' :: real))"
proof -
  have row: "fold (\<lambda>x q. setPix q x y (q x y + g x y)) [x0..<x1] p x' y' =
      (if y' = y then (if x0 \<le> x' \<and> x' < x1 then p x' y' + g x' y else p x' y') else p x' y')"
    for y p x' y'
    using fold_setPix_range [of y "\<lambda>x v. v + g x y" x0 x1 p x' y'] by simp
  show ?thesis
    using fold_rows_range [of "\<lambda>y. fold (\<lambda>x q. setPix q x y (q x y + g x y)) [x0..<x1]"
        "\<lambda>y x' v. if x0 \<le> x' \<and> x' < x1 then v + g x' y else v" y0 y1 p x' y', OF row]
    by simp
qed

lemma goodRegion_asKernel:
  "inBBox (goodRegion w h (asKernel lck)) x y \<longleftrightarrow>
     lcCtrX lck \<le> x \<and> x < lcCtrX lck + (w + 1 - lcWidth lck)
     \<and> lcCtrY lck \<le> y \<and> y < lcCtrY lck + (h + 1 - lcHeight lck)"
  by (simp add: inBBox_goodRegion asKernel_def)

lemma goodRegion_basis:
  "basis_wf lck k \<Longrightarrow> goodRegion w h k = goodRegion w h (asKernel lck)"
  by (simp add: goodRegion_def basis_wf_def asKernel_def)

lemma convolveLinearBases_good:
  assumes "list_all (\<lambda>b. b < length (getKernelList lck) \<and> basis_wf lck (getKernelList lck ! b)) bs"
    and "getWidth bI = getWidth i" "getHeight bI = getHeight i"
    and "lcWidth lck \<le> getWidth i" "lcHeight lck \<le> getHeight i"
  shows "convolveLinearBases i lck bs (p, bI) =
     ((\<lambda>x y. if inBBox (goodRegion (getWidth i) (getHeight i) (asKernel lck)) x y
               then p x y + (\<Sum>b\<leftarrow>bs. basisTerm i lck b x y) else p x y), None)"
  using assms
proof (induction bs arbitrary: p bI)
  case Nil
  show ?case by (simp add: fun_eq_iff)
next
  case (Cons b bs)
  let ?k = "getKernelList lck ! b"
  let ?r = "basicConvolve bI i ?k False"
  have wf: "basis_wf lck ?k" and rest:
    "list_all (\<lambda>b. b < length (getKernelList lck) \<and> basis_wf lck (getKernelList lck ! b)) bs"
    using Cons.prems(1) by simp_all
  have kwf: "kernel_wf ?k" "\<not> isSpatiallyVarying ?k" "kernelWidth ?k = lcWidth lck"
    "kernelHeight ?k = lcHeight lck" "getCtrX ?k = lcCtrX lck" "getCtrY ?k = lcCtrY lck"
    using wf by (simp_all add: basis_wf_def)
  have pre: "kernelWidth ?k \<le> getWidth i" "kernelHeight ?k \<le> getHeight i"
    using Cons.prems kwf by simp_all
  note bc = basicConvolve_invariant_kernel [OF kwf(1,2) Cons.prems(2,3) pre, where dn = False]
  obtain bI' where r: "?r = (bI', None)"
    using bc(1) by (cases ?r) auto
  have dims: "getWidth bI' = getWidth i" "getHeight bI' = getHeight i"
    using bc(2,3) r Cons.prems by simp_all
  have bpix: "pix bI' x y * (getSpatialFunctionList lck ! b) (indexToPosition x) (indexToPosition y)
      = basisTerm i lck b x y"
    if "inBBox (goodRegion (getWidth i) (getHeight i) (asKernel lck)) x y" for x y
    using bc(4) [of x y] that r goodRegion_basis [OF wf]
    by (simp add: basisTerm_def kwf computeImage_def Let_def)
  show ?case
    using Cons.IH [OF rest dims Cons.prems(4,5)]
    by (auto simp: r Let_def fun_eq_iff accumulate_rect_range goodRegion_asKernel
        bpix [unfolded goodRegion_asKernel])
qed

lemma copyBorder_inside:
  assumes "kernelWidth k \<le> getWidth i" "kernelHeight k \<le> getHeight i"
    and "getCtrX k < kernelWidth k" "getCtrY k < kernelHeight k"
    and "inBBox (goodRegion (getWidth i) (getHeight i) k) x y"
  shows "pix (copyBorder c i k) x y = pix c x y"
proof -
  have "x < getWidth i" "y < getHeight i"
    using assms by (auto simp: inBBox_goodRegion)
  then have "stripsHolding (getWidth i) (getHeight i) k x y = 0"
    using strips_cover_border [OF assms(1-4)] assms(5) by simp
  then show ?thesis
    by (auto simp: pix_copyBorder stripsHolding_def split: if_splits)
qed

lemma convolveAtAPoint_linear:
  "convolveAtAPoint inp x0 y0 (\<lambda>i j. \<Sum>b\<leftarrow>[0..<n]. c b * B b i j) kw kh
     = (\<Sum>b\<leftarrow>[0..<n]. convolveAtAPoint inp x0 y0 (B b) kw kh * c b)"
proof -
  have row: "(\<Sum>i<kw. inp (x0 + i) (y0 + j) * (\<Sum>b<n. c b * B b i j))
      = (\<Sum>b<n. \<Sum>i<kw. inp (x0 + i) (y0 + j) * B b i j * c b)" for j
  proof -
    have "(\<Sum>i<kw. inp (x0 + i) (y0 + j) * (\<Sum>b<n. c b * B b i j))
        = (\<Sum>i<kw. \<Sum>b<n. inp (x0 + i) (y0 + j) * B b i j * c b)"
      by (simp add: sum_distrib_left mult_ac)
    also have "\<dots> = (\<Sum>b<n. \<Sum>i<kw. inp (x0 + i) (y0 + j) * B b i j * c b)"
      by (rule sum.swap)
    finally show ?thesis .
  qed
  have "(\<Sum>j<kh. \<Sum>i<kw. inp (x0 + i) (y0 + j) * (\<Sum>b<n. c b * B b i j))
      = (\<Sum>j<kh. \<Sum>b<n. \<Sum>i<kw. inp (x0 + i) (y0 + j) * B b i j * c b)"
    by (simp only: row)
  also have "\<dots> = (\<Sum>b<n. \<Sum>j<kh. \<Sum>i<kw. inp (x0 + i) (y0 + j) * B b i j * c b)"
    by (rule sum.swap)
  finally show ?thesis
    by (simp add: convolveAtAPoint_sum sum_list_upt sum_distrib_right)
qed

lemma basicConvolve_asKernel:
  assumes "lcSpatiallyVarying lck"
    and "getWidth c = getWidth i" "getHeight c = getHeight i"
    and "lcWidth lck \<le> getWidth i" "lcHeight lck \<le> getHeight i"
    and "inBBox (goodRegion (getWidth i) (getHeight i) (asKernel lck)) x y"
  shows "pix (fst (basicConvolve c i (asKernel lck) False)) x y
           = (\<Sum>b\<leftarrow>[0..<length (getKernelList lck)]. basisTerm i lck b x y)"
proof -
  have k: "kernelWidth (asKernel lck) = lcWidth lck" "kernelHeight (asKernel lck) = lcHeight lck"
    "getCtrX (asKernel lck) = lcCtrX lck" "getCtrY (asKernel lck) = lcCtrY lck"
    "isSpatiallyVarying (asKernel lck)"
    using assms(1) by (simp_all add: asKernel_def)
  have raw: "rawImage (asKernel lck) X Y
      = (\<lambda>i j. \<Sum>b\<leftarrow>[0..<length (getKernelList lck)].
           (getSpatialFunctionList lck ! b) X Y * rawImage (getKernelList lck ! b) 0 0 i j)" for X Y
    using assms(1) by (simp add: rawImage_def asKernel_def basisCoefficient_def)
  have "basicConvolve c i (asKernel lck) False = basicConvolveGeneral c i (asKernel lck) False"
    by (simp add: basicConvolve_def asKernel_def)
  then show ?thesis
    using assms(2-6) k
    by (simp add: pix_basicConvolveGeneral_varying raw convolveAtAPoint_linear basisTerm_def)
qed

text \<open>
  Claim C3.  For a well-formed linear-combination kernel and an input at least as large as
  the kernel: if the kernel varies spatially, \<open>convolveLinear\<close> raises no exception and at
  every pixel of the good region its output equals the output of \<open>basicConvolve\<close> without
  normalization on the kernel seen as a plain kernel (the direct evaluation at every pixel),
  and equals the sum over the basis kernels of the coefficient at the pixel times the input
  convolved with that basis kernel; if the kernel does not vary, \<open>convolveLinear\<close> is one
  call of \<open>convolve\<close> without normalization.
\<close>

theorem convolveLinear_matches_basicConvolve:
  assumes "lck_wf lck"
    and "getWidth c = getWidth i" "getHeight c = getHeight i"
    and "lcWidth lck \<le> getWidth i" "lcHeight lck \<le> getHeight i"
  shows "(lcSpatiallyVarying lck \<longrightarrow>
            snd (convolveLinear fresh c i lck) = None \<and>
            (\<forall>x y. inBBox (goodRegion (getWidth i) (getHeight i) (asKernel lck)) x y \<longrightarrow>
               pix (fst (convolveLinear fresh c i lck)) x y
                 = pix (fst (basicConvolve c i (asKernel lck) False)) x y
             \<and> pix (fst (convolveLinear fresh c i lck)) x y
                 = (\<Sum>b\<leftarrow>[0..<length (getKernelList lck)].
                      pix (fst (basicConvolve
                                  \<lparr>getWidth = getWidth i, getHeight = getHeight i, pix = fresh\<rparr>
                                  i (getKernelList lck ! b) False)) x y
                      * (getSpatialFunctionList lck ! b) (indexToPosition x) (indexToPosition y))))
       \<and> (\<not> lcSpatiallyVarying lck \<longrightarrow>
            convolveLinear fresh c i lck = convolve c i (asKernel lck) False)"
proof -
  let ?n = "length (getKernelList lck)"
  let ?bI = "\<lparr>getWidth = getWidth i, getHeight = getHeight i, pix = fresh\<rparr>"
  have ctr: "lcCtrX lck < lcWidth lck" "lcCtrY lck < lcHeight lck"
    using assms(1) by (simp_all add: lck_wf_def)
  have all: "list_all (\<lambda>b. b < ?n \<and> basis_wf lck (getKernelList lck ! b)) [0..<?n]"
    using assms(1) by (simp add: lck_wf_def list_all_length)
  have bwf: "basis_wf lck (getKernelList lck ! b)" if "b < ?n" for b
    using assms(1) that by (simp add: lck_wf_def list_all_length)
  have k: "kernelWidth (asKernel lck) = lcWidth lck" "kernelHeight (asKernel lck) = lcHeight lck"
    "getCtrX (asKernel lck) = lcCtrX lck" "getCtrY (asKernel lck) = lcCtrY lck"
    by (simp_all add: asKernel_def)
  have second: "convolveLinear fresh c i lck = convolve c i (asKernel lck) False"
    if "\<not> lcSpatiallyVarying lck"
    using that by (simp add: convolveLinear_def)
  have first: "snd (convolveLinear fresh c i lck) = None \<and>
            (\<forall>x y. inBBox (goodRegion (getWidth i) (getHeight i) (asKernel lck)) x y \<longrightarrow>
               pix (fst (convolveLinear fresh c i lck)) x y
                 = pix (fst (basicConvolve c i (asKernel lck) False)) x y
             \<and> pix (fst (convolveLinear fresh c i lck)) x y
                 = (\<Sum>b\<leftarrow>[0..<?n].
                      pix (fst (basicConvolve ?bI i (getKernelList lck ! b) False)) x y
                      * (getSpatialFunctionList lck ! b) (indexToPosition x) (indexToPosition y)))"
    if sv: "lcSpatiallyVarying lck"
  proof -
    have fillz: "fold (\<lambda>cnvY. fold (\<lambda>cnvX q. setPix q cnvX cnvY 0) [x0..<x1]) [y0..<y1] p
        = (\<lambda>x y. if x0 \<le> x \<and> x < x1 \<and> y0 \<le> y \<and> y < y1 then 0 else p x y)"
      for x0 x1 y0 y1 and p :: "real pixels"
      by (intro ext) (simp add: fill_rect_range)
    have border: "copyBorderChecked (c\<lparr>pix := p\<rparr>) i (asKernel lck)
        = (copyBorder (c\<lparr>pix := p\<rparr>) i (asKernel lck), None)" for p
      using assms(2-5) ctr by (intro copyBorderChecked_eq) (simp_all add: k)
    have cl: "snd (convolveLinear fresh c i lck) = None"
      using sv assms(2-5)
      by (simp add: convolveLinear_def Let_def fillz border
          convolveLinearBases_good [OF all _ _ assms(4,5)])
    have px: "pix (fst (convolveLinear fresh c i lck)) x y = (\<Sum>b\<leftarrow>[0..<?n]. basisTerm i lck b x y)"
      if good: "inBBox (goodRegion (getWidth i) (getHeight i) (asKernel lck)) x y" for x y
      using sv assms(2-5) good ctr good [unfolded goodRegion_asKernel]
      by (simp add: convolveLinear_def Let_def fillz border
          convolveLinearBases_good [OF all _ _ assms(4,5)] copyBorder_inside k)
    have bt: "(\<Sum>b\<leftarrow>[0..<?n]. pix (fst (basicConvolve ?bI i (getKernelList lck ! b) False)) x y
                      * (getSpatialFunctionList lck ! b) (indexToPosition x) (indexToPosition y))
        = (\<Sum>b\<leftarrow>[0..<?n]. basisTerm i lck b x y)"
      if good: "inBBox (goodRegion (getWidth i) (getHeight i) (asKernel lck)) x y" for x y
    proof -
      have "pix (fst (basicConvolve ?bI i (getKernelList lck ! b) False)) x y
                      * (getSpatialFunctionList lck ! b) (indexToPosition x) (indexToPosition y)
          = basisTerm i lck b x y" if "b < ?n" for b
      proof -
        let ?k = "getKernelList lck ! b"
        have kwf: "kernel_wf ?k" "\<not> isSpatiallyVarying ?k" "kernelWidth ?k = lcWidth lck"
          "kernelHeight ?k = lcHeight lck" "getCtrX ?k = lcCtrX lck" "getCtrY ?k = lcCtrY lck"
          using bwf [OF that] by (simp_all add: basis_wf_def)
        have "pix (fst (basicConvolve ?bI i ?k False)) x y
            = convolveAtAPoint (pix i) (x - getCtrX ?k) (y - getCtrY ?k)
                 (fst (computeImage ?k False 0 0)) (kernelWidth ?k) (kernelHeight ?k)"
          using basicConvolve_invariant_kernel(4) [OF kwf(1,2), of ?bI i x y False]
            assms(4,5) kwf good goodRegion_basis [OF bwf [OF that]]
          by simp
        then show ?thesis
          by (simp add: basisTerm_def kwf computeImage_def Let_def)
      qed
      then show ?thesis
        by (intro arg_cong [where f = sum_list] map_cong refl) simp
    qed
    show ?thesis
      using px bt basicConvolve_asKernel [OF sv assms(2-5)] cl by simp
  qed
  show ?thesis using first second by blast
qed

theorem convolveLinear_matches_basicConvolve_witness:
  "lck_wf lck2 \<and> lcSpatiallyVarying lck2
     \<and> inBBox (goodRegion 3 3 (asKernel lck2)) 1 1
     \<and> pix (fst (convolveLinear (\<lambda>x y. 0) (img3 7) ramp3 lck2)) 1 1
         = pix (fst (basicConvolve (img3 7) ramp3 (asKernel lck2) False)) 1 1
     \<and> pix (fst (basicConvolve (img3 7) ramp3 (asKernel lck2) False)) 1 1 = 40"
proof -
  have wf: "lck_wf lck2"
    by (simp add: lck_wf_def lck2_def basis_wf_def kernel_wf_def delta3_def ones3_def)
  have sv: "lcSpatiallyVarying lck2"
    by (simp add: lck2_def)
  have good: "inBBox (goodRegion 3 3 (asKernel lck2)) 1 1"
    by (simp add: goodRegion_def inBBox_mkBBox asKernel_def lck2_def)
  have dims: "getWidth (img3 7) = getWidth ramp3" "getHeight (img3 7) = getHeight ramp3"
    "lcWidth lck2 \<le> getWidth ramp3" "lcHeight lck2 \<le> getHeight ramp3"
    "getWidth ramp3 = 3" "getHeight ramp3 = 3"
    by (simp_all add: img3_def ramp3_def lck2_def)
  have eq: "pix (fst (convolveLinear (\<lambda>x y. 0) (img3 7) ramp3 lck2)) 1 1
         = pix (fst (basicConvolve (img3 7) ramp3 (asKernel lck2) False)) 1 1"
    using convolveLinear_matches_basicConvolve [OF wf dims(1-4), of "\<lambda>x y. 0"] sv good
    by (simp add: dims(5,6))
  have val: "pix (fst (basicConvolve (img3 7) ramp3 (asKernel lck2) False)) 1 1 = 40"
    by (simp add: basicConvolve_def basicConvolveGeneral_def asKernel_def lck2_def img3_def
        ramp3_def Let_def upt_rec computeImage_def rawImage_def convolveAtAPoint_def setPix_def
        basisCoefficient_def indexToPosition_def delta3_def ones3_def kernelSum_def)
  show ?thesis using wf sv good eq val by simp
qed

lemma fast_path_agrees_inside:
  assumes "kernel_wf k" "\<not> isSpatiallyVarying k"
    and "getWidth c = getWidth i" "getHeight c = getHeight i"
    and "kernelWidth k \<le> getWidth i" "kernelHeight k \<le> getHeight i"
    and "inBBox (goodRegion (getWidth i) (getHeight i) k) x y"
  shows "pix (fst (basicConvolve c i k dn)) x y = pix (fst (basicConvolveGeneral c i k dn)) x y"
proof -
  have "getCtrX k < kernelWidth k"
    using assms(1) by (simp add: kernel_wf_def)
  then show ?thesis
    using basicConvolve_invariant_kernel(4) [OF assms(1-6), of x y dn] assms
    by (simp add: pix_basicConvolveGeneral_invariant inBBox_goodRegion)
qed

text \<open>
  Claim C1 at a concrete input.  The output image is 3 by 3 with every pixel 7, the input
  3 by 3 with every pixel 5, the kernel the 3 by 3 box average centred at (1, 1), which does
  not vary.  The good region is the single pixel (1, 1), which receives 5.  The pixel
  (2, 1) lies in the border, and the general form of \<open>basicConvolve\<close> leaves it at 0, not
  at 7: the loop that clears an output row before the kernel rows are added runs to the
  end of the row.
\<close>

theorem basicConvolve_general_clears_right_border:
  "snd (basicConvolve (img3 7) (img3 5) box3 False) = None
     \<and> inBBox (goodRegion 3 3 box3) 1 1 \<and> \<not> inBBox (goodRegion 3 3 box3) 2 1
     \<and> pix (fst (basicConvolve (img3 7) (img3 5) box3 False)) 1 1 = 5
     \<and> pix (img3 7) 2 1 = 7
     \<and> pix (fst (basicConvolve (img3 7) (img3 5) box3 False)) 2 1 = 0"
  by (simp add: basicConvolve_def basicConvolveGeneral_def box3_def img3_def Let_def upt_rec
      computeImage_def rawImage_def convolveOneKernelRow_def setPix_def goodRegion_def
      inBBox_mkBBox)

text \<open>
  Claim C2 at a concrete input.  On the same images, the separable kernel with both vectors
  (1/3, 1/3, 1/3) and the delta-function kernel with its pixel at the centre are convolved
  by their own versions of \<open>basicConvolve\<close> and by the general form.  The good pixel (1, 1)
  agrees, the border pixel (2, 1) does not: the special versions leave it at 7, the
  general form at 0.
\<close>

theorem fast_paths_differ_from_general_on_border:
  "pix (fst (basicConvolve (img3 7) (img3 5) sep3 False)) 1 1 = 5
     \<and> pix (fst (basicConvolveGeneral (img3 7) (img3 5) sep3 False)) 1 1 = 5
     \<and> pix (fst (basicConvolve (img3 7) (img3 5) sep3 False)) 2 1 = 7
     \<and> pix (fst (basicConvolveGeneral (img3 7) (img3 5) sep3 False)) 2 1 = 0
     \<and> pix (fst (basicConvolve (img3 7) (img3 5) delta3 False)) 2 1 = 7
     \<and> pix (fst (basicConvolveGeneral (img3 7) (img3 5) delta3 False)) 2 1 = 0"
  by (simp add: basicConvolve_def basicConvolveGeneral_def basicConvolveSeparable_def
      basicConvolveDelta_def sep3_def delta3_def img3_def Let_def upt_rec computeImage_def
      rawImage_def convolveOneKernelRow_def setPix_def computeVectors_def
      convolveAtAPointSeparable_def kernelSum_def)

section \<open>Properties of the Interpolated Convolver\<close>

lemma interpolateRow_eq:
  "interpolateRow inp kw kh W delta inX inY outX outY (outp, kim) =
     ((\<lambda>x y. if y = outY \<and> outX \<le> x \<and> x < outX + max 1 W
              then convolveAtAPoint inp (inX + (x - outX)) inY
                     (\<lambda>a b. kim a b + real (x - outX) * delta a b) kw kh
              else outp x y),
      (\<lambda>a b. kim a b + real (max 1 W - 1) * delta a b))"
proof (induction W)
  case 0
  have "x < Suc outX \<Longrightarrow> outX \<le> x \<Longrightarrow> x = outX" for x by simp
  then show ?case
    by (auto simp: interpolateRow_def fun_eq_iff setPix_apply)
next
  case (Suc W)
  show ?case
  proof (cases "W = 0")
    case True
    have "x < Suc outX \<Longrightarrow> outX \<le> x \<Longrightarrow> x = outX" for x by simp
    then show ?thesis
      using True by (auto simp: interpolateRow_def fun_eq_iff setPix_apply)
  next
    case False
    then have W: "1 \<le> W" "max 1 W = W" "max 1 (Suc W) = Suc W" by simp_all
    have step: "plusImage (\<lambda>a b. kim a b + real (W - Suc 0) * delta a b) delta
        = (\<lambda>a b. kim a b + real W * delta a b)"
      using W(1) by (simp add: plusImage_def fun_eq_iff algebra_simps)
    have unf: "interpolateRow inp kw kh (Suc W) delta inX inY outX outY (outp, kim)
        = (\<lambda>(outp, kernelImage).
             let kernelImage' = plusImage kernelImage delta
             in (setPix outp (outX + W) outY
                   (convolveAtAPoint inp (inX + W) inY kernelImage' kw kh), kernelImage'))
            (interpolateRow inp kw kh W delta inX inY outX outY (outp, kim))"
      using W(1) by (simp add: interpolateRow_def upt_Suc_append)
    show ?thesis
      unfolding unf Suc.IH W
      by (auto simp: Let_def step fun_eq_iff setPix_apply)
  qed
qed

lemma interpolateRegionRow_eq:
  "interpolateRegionRow inp kw kh W xfrac inX inY outX outY (outp, l, r, k) =
     ((\<lambda>x y. if y = outY \<and> outX \<le> x \<and> x < outX + max 1 W
              then convolveAtAPoint inp (inX + (x - outX)) inY
                     (\<lambda>a b. k a b + real (x - outX) * (xfrac * r a b - xfrac * l a b)) kw kh
              else outp x y),
      l, r,
      (\<lambda>a b. k a b + real (max 1 W - 1) * (xfrac * r a b - xfrac * l a b)))"
  by (simp add: interpolateRegionRow_def interpolateRow_eq scaledPlus_def)

lemma interpolate_rows:
  fixes BL BR ld rd :: KernelImage
    and inp outInit :: "real pixels"
    and kw kh W inX inY outX outY :: nat
    and xfrac :: real
  defines "L \<equiv> \<lambda>j a b. BL a b + real j * ld a b"
    and "R \<equiv> \<lambda>j a b. BR a b + real j * rd a b"
  defines "step \<equiv> (\<lambda>j (outp, leftImage, rightImage, kernelImage).
                  let leftImage' = plusImage leftImage ld;
                      rightImage' = plusImage rightImage rd
                  in interpolateRegionRow inp kw kh W xfrac inX (inY + j) outX (outY + j)
                       (outp, leftImage', rightImage', leftImage'))"
    and "init \<equiv> interpolateRegionRow inp kw kh W xfrac inX (inY + 0) outX (outY + 0)
                   (outInit, BL, BR, BL)"
    and "P \<equiv> (\<lambda>H x y. if outY \<le> y \<and> y < outY + max 1 H \<and> outX \<le> x \<and> x < outX + max 1 W
                  then convolveAtAPoint inp (inX + (x - outX)) (inY + (y - outY))
                         (\<lambda>a b. L (y - outY) a b
                            + real (x - outX) * (xfrac * R (y - outY) a b - xfrac * L (y - outY) a b))
                         kw kh
                  else outInit x y)"
  shows "\<exists>K. fold step [1..<H] init = (P H, L (max 1 H - 1), R (max 1 H - 1), K)"
proof (induction H)
  case 0
  have "y < Suc outY \<Longrightarrow> outY \<le> y \<Longrightarrow> y = outY" for y by simp
  then show ?case
    by (auto simp: init_def P_def interpolateRegionRow_eq L_def R_def fun_eq_iff)
next
  case (Suc H)
  show ?case
  proof (cases "H = 0")
    case True
    have "y < Suc outY \<Longrightarrow> outY \<le> y \<Longrightarrow> y = outY" for y by simp
    then show ?thesis
      using True by (auto simp: init_def P_def interpolateRegionRow_eq L_def R_def fun_eq_iff)
  next
    case False
    then have H: "1 \<le> H" "max 1 H = H" "max 1 (Suc H) = Suc H" by simp_all
    have stepL: "plusImage (L (H - 1)) ld = L H"
      using H(1) by (simp add: plusImage_def L_def fun_eq_iff algebra_simps)
    have stepR: "plusImage (R (H - 1)) rd = R H"
      using H(1) by (simp add: plusImage_def R_def fun_eq_iff algebra_simps)
    from Suc.IH obtain K where IH: "fold step [1..<H] init = (P H, L (H - 1), R (H - 1), K)"
      unfolding H by blast
    have unf: "fold step [1..<Suc H] init = step H (fold step [1..<H] init)"
      using H(1) by (simp add: upt_Suc_append)
    have "step H (P H, L (H - 1), R (H - 1), K)
        = (P (Suc H), L H, R H,
           (\<lambda>a b. L H a b + real (max 1 W - 1) * (xfrac * R H a b - xfrac * L H a b)))"
      unfolding step_def prod.case Let_def stepL stepR interpolateRegionRow_eq
      by (auto simp: P_def fun_eq_iff)
    then show ?thesis
      unfolding unf IH H by simp
  qed
qed

lemma pix_basicConvolveSeparable_varying:
  assumes "getWidth c = getWidth i" "getHeight c = getHeight i"
    and "kernelWidth k \<le> getWidth i" "kernelHeight k \<le> getHeight i"
    and "isSpatiallyVarying k" "shape k = Separable fx fy"
  shows "basicConvolveSeparable c i k fx fy False =
     (c\<lparr>pix := (\<lambda>x y. if inBBox (goodRegion (getWidth i) (getHeight i) k) x y
          then convolveAtAPoint (pix i) (x - getCtrX k) (y - getCtrY k)
                 (rawImage k (indexToPosition x) (indexToPosition y)) (kernelWidth k) (kernelHeight k)
          else pix c x y)\<rparr>, None)"
proof -
  have sc: "convolveAtAPointSeparable (pix i) x0 y0
           (fst (computeVectors fx fy (kernelWidth k) (kernelHeight k) False X Y))
           (fst (snd (computeVectors fx fy (kernelWidth k) (kernelHeight k) False X Y)))
         = convolveAtAPoint (pix i) x0 y0 (rawImage k X Y) (kernelWidth k) (kernelHeight k)"
    for x0 y0 X Y
    using separable_convolve [OF assms(6), of "pix i" x0 y0 False X Y]
    by (simp add: computeImage_def Let_def)
  have "fold (\<lambda>cnvY. fold (\<lambda>cnvX p.
           let (kXVec, kYVec, kSum) =
                 computeVectors fx fy (kernelWidth k) (kernelHeight k) False
                   (indexToPosition cnvX) (indexToPosition cnvY);
               v = convolveAtAPointSeparable (pix i) (cnvX - getCtrX k) (cnvY - getCtrY k) kXVec kYVec
           in setPix p cnvX cnvY (if False then v / kSum else v)) [x0..<x1]) [y0..<y1] p
        = (\<lambda>x y. if x0 \<le> x \<and> x < x1 \<and> y0 \<le> y \<and> y < y1
             then convolveAtAPoint (pix i) (x - getCtrX k) (y - getCtrY k)
                 (rawImage k (indexToPosition x) (indexToPosition y)) (kernelWidth k) (kernelHeight k)
             else p x y)" for x0 x1 y0 y1 p
    using fill_rect_range [of "\<lambda>x y. convolveAtAPoint (pix i) (x - getCtrX k) (y - getCtrY k)
                 (rawImage k (indexToPosition x) (indexToPosition y)) (kernelWidth k) (kernelHeight k)"
        x0 x1 y0 y1 p]
    by (intro ext) (simp add: split_beta Let_def sc)
  then show ?thesis
    using assms by (simp add: basicConvolveSeparable_def Let_def goodRegion_def inBBox_mkBBox)
qed

lemma basicConvolve_varying:
  assumes "kernel_wf k" "isSpatiallyVarying k"
    and "getWidth c = getWidth i" "getHeight c = getHeight i"
    and "kernelWidth k \<le> getWidth i" "kernelHeight k \<le> getHeight i"
  shows "basicConvolve c i k False =
     (c\<lparr>pix := (\<lambda>x y. if inBBox (goodRegion (getWidth i) (getHeight i) k) x y
          then convolveAtAPoint (pix i) (x - getCtrX k) (y - getCtrY k)
                 (rawImage k (indexToPosition x) (indexToPosition y)) (kernelWidth k) (kernelHeight k)
          else pix c x y)\<rparr>, None)"
proof (cases "shape k")
  case (DeltaFunction px py)
  then show ?thesis using assms(1,2) by (simp add: kernel_wf_def)
next
  case (Separable fx fy)
  then show ?thesis
    using pix_basicConvolveSeparable_varying [OF assms(3-6) assms(2) Separable]
    by (simp add: basicConvolve_def)
next
  case (Dense f)
  then show ?thesis
    using pix_basicConvolveGeneral_varying [OF assms(3-6) assms(2), of False, unfolded Let_def if_False]
    by (simp add: basicConvolve_def)
qed

lemma pix_convolveRegionWithInterpolation:
  assumes "0 < bboxWidth (getBBox region)" "0 < bboxHeight (getBBox region)"
    and "getCtrX (getKernel region) \<le> getMinX (getBBox region)"
    and "getCtrY (getKernel region) \<le> getMinY (getBBox region)"
  shows "convolveRegionWithInterpolation outImage inImage region =
     outImage\<lparr>pix := (\<lambda>x y. if inBBox (getBBox region) x y
        then convolveAtAPoint (pix inImage) (x - getCtrX (getKernel region))
               (y - getCtrY (getKernel region))
               (bilinear region (x - getMinX (getBBox region)) (y - getMinY (getBBox region)))
               (kernelWidth (getKernel region)) (kernelHeight (getKernel region))
        else pix outImage x y)\<rparr>"
proof -
  let ?b = "getBBox region" and ?k = "getKernel region"
  let ?W = "bboxWidth ?b" and ?H = "bboxHeight ?b"
  let ?yf = "1 / real ?H" and ?xf = "1 / real ?W"
  let ?ld = "scaledPlus ?yf (TOP_LEFT region) (- ?yf) (BOTTOM_LEFT region)"
  let ?rd = "scaledPlus ?yf (TOP_RIGHT region) (- ?yf) (BOTTOM_RIGHT region)"
  have mx: "max 1 ?W = ?W" "max 1 ?H = ?H"
    using assms(1,2) by simp_all
  obtain K where rows:
    "fold (\<lambda>j (outp, leftImage, rightImage, kernelImage).
                  let leftImage' = plusImage leftImage ?ld;
                      rightImage' = plusImage rightImage ?rd
                  in interpolateRegionRow (pix inImage) (kernelWidth ?k) (kernelHeight ?k) ?W ?xf
                       (getMinX ?b - getCtrX ?k) (getMinY ?b - getCtrY ?k + j)
                       (getMinX ?b) (getMinY ?b + j)
                       (outp, leftImage', rightImage', leftImage'))
            [1..<?H]
            (interpolateRegionRow (pix inImage) (kernelWidth ?k) (kernelHeight ?k) ?W ?xf
               (getMinX ?b - getCtrX ?k) (getMinY ?b - getCtrY ?k + 0) (getMinX ?b) (getMinY ?b + 0)
               (pix outImage, BOTTOM_LEFT region, BOTTOM_RIGHT region, BOTTOM_LEFT region))
       = ((\<lambda>x y. if getMinY ?b \<le> y \<and> y < getMinY ?b + max 1 ?H
                     \<and> getMinX ?b \<le> x \<and> x < getMinX ?b + max 1 ?W
                  then convolveAtAPoint (pix inImage) (getMinX ?b - getCtrX ?k + (x - getMinX ?b))
                         (getMinY ?b - getCtrY ?k + (y - getMinY ?b))
                         (\<lambda>a b. (BOTTOM_LEFT region a b + real (y - getMinY ?b) * ?ld a b)
                            + real (x - getMinX ?b)
                              * (?xf * (BOTTOM_RIGHT region a b + real (y - getMinY ?b) * ?rd a b)
                                 - ?xf * (BOTTOM_LEFT region a b + real (y - getMinY ?b) * ?ld a b)))
                         (kernelWidth ?k) (kernelHeight ?k)
                  else pix outImage x y),
          (\<lambda>a b. BOTTOM_LEFT region a b + real (max 1 ?H - 1) * ?ld a b),
          (\<lambda>a b. BOTTOM_RIGHT region a b + real (max 1 ?H - 1) * ?rd a b), K)"
    using interpolate_rows [where inp = "pix inImage" and kw = "kernelWidth ?k"
        and kh = "kernelHeight ?k" and W = ?W and xfrac = ?xf
        and inX = "getMinX ?b - getCtrX ?k" and inY = "getMinY ?b - getCtrY ?k"
        and outX = "getMinX ?b" and outY = "getMinY ?b" and ld = ?ld and rd = ?rd and H = ?H
        and outInit = "pix outImage" and BL = "BOTTOM_LEFT region" and BR = "BOTTOM_RIGHT region"]
    by blast
  have kim: "(\<lambda>a b. (BOTTOM_LEFT region a b + real j * ?ld a b)
                + real i * (?xf * (BOTTOM_RIGHT region a b + real j * ?rd a b)
                            - ?xf * (BOTTOM_LEFT region a b + real j * ?ld a b)))
      = bilinear region i j" for i j
    by (simp add: bilinear_def Let_def scaledPlus_def fun_eq_iff divide_inverse algebra_simps)
  have "convolveRegionWithInterpolation outImage inImage region =
      outImage\<lparr>pix := (\<lambda>x y. if getMinY ?b \<le> y \<and> y < getMinY ?b + ?H
                     \<and> getMinX ?b \<le> x \<and> x < getMinX ?b + ?W
                  then convolveAtAPoint (pix inImage) (getMinX ?b - getCtrX ?k + (x - getMinX ?b))
                         (getMinY ?b - getCtrY ?k + (y - getMinY ?b))
                         (bilinear region (x - getMinX ?b) (y - getMinY ?b))
                         (kernelWidth ?k) (kernelHeight ?k)
                  else pix outImage x y)\<rparr>"
    unfolding convolveRegionWithInterpolation_def Let_def growBBox_def
    using rows [unfolded Let_def kim mx] by (simp add: mkBBox_def)
  also have "\<dots> = outImage\<lparr>pix := (\<lambda>x y. if inBBox ?b x y
        then convolveAtAPoint (pix inImage) (x - getCtrX ?k) (y - getCtrY ?k)
               (bilinear region (x - getMinX ?b) (y - getMinY ?b))
               (kernelWidth ?k) (kernelHeight ?k)
        else pix outImage x y)\<rparr>"
    using assms(3,4) by (auto simp: fun_eq_iff inBBox_def intro!: arg_cong [where f = "\<lambda>p. outImage\<lparr>pix := p\<rparr>"])
  finally show ?thesis .
qed

lemma bilinear_algebra:
  fixes u v w h x0 y0 a bx by' :: real
  shows "(1 - u) * (1 - v) * (a + x0 * bx + y0 * by')
       + u * (1 - v) * (a + (x0 + w) * bx + y0 * by')
       + (1 - u) * v * (a + x0 * bx + (y0 + h) * by')
       + u * v * (a + (x0 + w) * bx + (y0 + h) * by')
       = a + (x0 + u * w) * bx + (y0 + v * h) * by'"
  by (simp add: algebra_simps)

lemma bilinear_linear_region:
  assumes raw: "\<And>X Y. rawImage k X Y = (\<lambda>a b. A a b + X * Bx a b + Y * By a b)"
    and pos: "0 < W" "0 < H"
    and region: "bboxWidth (getBBox r) = W" "bboxHeight (getBBox r) = H"
      "BOTTOM_LEFT r = rawImage k (real gx) (real gy)"
      "BOTTOM_RIGHT r = rawImage k (real gx + real W) (real gy)"
      "TOP_LEFT r = rawImage k (real gx) (real gy + real H)"
      "TOP_RIGHT r = rawImage k (real gx + real W) (real gy + real H)"
  shows "bilinear r n m = rawImage k (real gx + real n) (real gy + real m)"
proof -
  have uw: "real n / real W * real W = real n" "real m / real H * real H = real m"
    using pos by simp_all
  show ?thesis
    unfolding bilinear_def Let_def region raw bilinear_algebra uw ..
qed

lemma bilinear_linearKernel:
  assumes "linearKernel k A Bx By"
    and "kernelWidth k \<le> getWidth i" "kernelHeight k \<le> getHeight i"
    and "getCtrX k \<le> x" "getCtrY k \<le> y"
  shows "bilinear (wholeRegion i k) (x - getCtrX k) (y - getCtrY k)
           = rawImage k (indexToPosition x) (indexToPosition y)"
proof -
  let ?W = "getWidth i + 1 - kernelWidth k" and ?H = "getHeight i + 1 - kernelHeight k"
  have pos: "0 < ?W" "0 < ?H"
    using assms(2,3) by simp_all
  have raw: "rawImage k X Y = (\<lambda>a b. A a b + X * Bx a b + Y * By a b)" for X Y
    using assms(1) by (simp add: linearKernel_def)
  have "bilinear (wholeRegion i k) (x - getCtrX k) (y - getCtrY k)
      = rawImage k (real (getCtrX k) + real (x - getCtrX k)) (real (getCtrY k) + real (y - getCtrY k))"
    by (rule bilinear_linear_region [OF raw pos])
      (simp_all add: wholeRegion_def Let_def goodRegion_def mkBBox_def indexToPosition_def
        del: of_nat_diff)
  then show ?thesis
    using assms(4,5) by (simp add: indexToPosition_def)
qed

text \<open>
  Claim C4.  Take a well-formed kernel whose weight image is a linear function of the
  position, an input at least as large as the kernel, and the single region that covers
  the good area, with the kernel evaluated at its four corners.  At every pixel of the
  region the working kernel image that \<open>convolveRegionWithInterpolation\<close> accumulates is
  the bilinear interpolation of the four corner images, which is the weight image of the
  kernel at that pixel; the output pixel equals the one \<open>basicConvolve\<close> computes without
  normalization, and so do the whole output images.  When the maximum interpolation
  distance exceeds the width and height of the good area, \<open>convolveWithInterpolation\<close>
  divides it into one column and one row, and on that single region returns what
  \<open>basicConvolve\<close> returns.
\<close>

theorem interpolation_exact_for_linear_kernel:
  assumes "kernel_wf k" "linearKernel k A Bx By"
    and "getWidth outImage = getWidth inImage" "getHeight outImage = getHeight inImage"
    and "kernelWidth k \<le> getWidth inImage" "kernelHeight k \<le> getHeight inImage"
  shows "(\<forall>x y. inBBox (goodRegion (getWidth inImage) (getHeight inImage) k) x y \<longrightarrow>
            pix (convolveRegionWithInterpolation outImage inImage (wholeRegion inImage k)) x y
              = convolveAtAPoint (pix inImage) (x - getCtrX k) (y - getCtrY k)
                  (bilinear (wholeRegion inImage k) (x - getCtrX k) (y - getCtrY k))
                  (kernelWidth k) (kernelHeight k)
          \<and> bilinear (wholeRegion inImage k) (x - getCtrX k) (y - getCtrY k)
              = rawImage k (indexToPosition x) (indexToPosition y)
          \<and> pix (convolveRegionWithInterpolation outImage inImage (wholeRegion inImage k)) x y
              = pix (fst (basicConvolve outImage inImage k False)) x y)
       \<and> (convolveRegionWithInterpolation outImage inImage (wholeRegion inImage k), None)
           = basicConvolve outImage inImage k False
       \<and> (\<forall>regionRows ctl.
             int (getWidth inImage + 1 - kernelWidth k) < getMaxInterpolationDistance ctl
           \<and> int (getHeight inImage + 1 - kernelHeight k) < getMaxInterpolationDistance ctl
           \<and> regionRows k (goodRegion (getWidth inImage) (getHeight inImage) k)
                (getDoNormalize ctl) 1 1 = [wholeRegion inImage k]
           \<longrightarrow> convolveWithInterpolation regionRows outImage inImage k ctl
                 = basicConvolve outImage inImage k False)"
proof -
  let ?g = "goodRegion (getWidth inImage) (getHeight inImage) k"
  let ?r = "wholeRegion inImage k"
  have r: "getBBox ?r = ?g" "getKernel ?r = k"
    by (simp_all add: wholeRegion_def Let_def)
  have g: "getMinX ?g = getCtrX k" "getMinY ?g = getCtrY k"
    "bboxWidth ?g = getWidth inImage + 1 - kernelWidth k"
    "bboxHeight ?g = getHeight inImage + 1 - kernelHeight k"
    by (simp_all add: goodRegion_def mkBBox_def)
  have sv: "isSpatiallyVarying k"
    using assms(2) by (simp add: linearKernel_def)
  have region: "convolveRegionWithInterpolation outImage inImage ?r =
     outImage\<lparr>pix := (\<lambda>x y. if inBBox ?g x y
        then convolveAtAPoint (pix inImage) (x - getCtrX k) (y - getCtrY k)
               (bilinear ?r (x - getCtrX k) (y - getCtrY k)) (kernelWidth k) (kernelHeight k)
        else pix outImage x y)\<rparr>"
    using pix_convolveRegionWithInterpolation [of ?r outImage inImage, unfolded r g] assms(5,6)
    by simp
  have bil: "bilinear ?r (x - getCtrX k) (y - getCtrY k)
      = rawImage k (indexToPosition x) (indexToPosition y)" if "inBBox ?g x y" for x y
    using that bilinear_linearKernel [OF assms(2,5,6), of x y] by (simp add: inBBox_goodRegion)
  have basic: "basicConvolve outImage inImage k False =
     (outImage\<lparr>pix := (\<lambda>x y. if inBBox ?g x y
          then convolveAtAPoint (pix inImage) (x - getCtrX k) (y - getCtrY k)
                 (rawImage k (indexToPosition x) (indexToPosition y)) (kernelWidth k) (kernelHeight k)
          else pix outImage x y)\<rparr>, None)"
    by (rule basicConvolve_varying [OF assms(1) sv assms(3-6)])
  have same: "(convolveRegionWithInterpolation outImage inImage ?r, None)
      = basicConvolve outImage inImage k False"
  proof -
    have "(\<lambda>x y. if inBBox ?g x y
        then convolveAtAPoint (pix inImage) (x - getCtrX k) (y - getCtrY k)
               (bilinear ?r (x - getCtrX k) (y - getCtrY k)) (kernelWidth k) (kernelHeight k)
        else pix outImage x y)
      = (\<lambda>x y. if inBBox ?g x y
          then convolveAtAPoint (pix inImage) (x - getCtrX k) (y - getCtrY k)
                 (rawImage k (indexToPosition x) (indexToPosition y)) (kernelWidth k) (kernelHeight k)
          else pix outImage x y)"
      by (intro ext) (auto simp: bil)
    then show ?thesis
      unfolding region basic by simp
  qed
  have whole: "convolveWithInterpolation regionRows outImage inImage k ctl
      = basicConvolve outImage inImage k False"
    if "int (getWidth inImage + 1 - kernelWidth k) < getMaxInterpolationDistance ctl"
      and "int (getHeight inImage + 1 - kernelHeight k) < getMaxInterpolationDistance ctl"
      and "regionRows k ?g (getDoNormalize ctl) 1 1 = [?r]" for regionRows ctl
  proof -
    have shrink: "shrinkBBox k (mkBBox 0 0 (getWidth inImage) (getHeight inImage)) = Inr ?g"
      using assms(5,6) by (simp add: shrinkBBox_def goodRegion_def mkBBox_def)
    have grid: "gridDivisions (int (bboxWidth ?g)) (int (bboxHeight ?g))
        (getMaxInterpolationDistance ctl) = (1, 1)"
      using that(1,2) unfolding g by (simp add: gridDivisions_def cdiv_nonneg)
    have "getMaxInterpolationDistance ctl \<noteq> 0"
      using that(1) by auto
    then show ?thesis
      using assms(3,4) that(3) same
      by (simp add: convolveWithInterpolation_def shrink grid)
  qed
  have fst_basic: "fst (basicConvolve outImage inImage k False)
      = convolveRegionWithInterpolation outImage inImage ?r"
    using same [symmetric] by simp
  have px: "pix (convolveRegionWithInterpolation outImage inImage ?r) x y
              = convolveAtAPoint (pix inImage) (x - getCtrX k) (y - getCtrY k)
                  (bilinear ?r (x - getCtrX k) (y - getCtrY k)) (kernelWidth k) (kernelHeight k)"
    if "inBBox ?g x y" for x y
    using that by (simp add: region)
  show ?thesis
    using px bil whole same unfolding fst_basic by blast
qed

theorem interpolation_exact_for_linear_kernel_witness:
  "kernel_wf lin2
     \<and> linearKernel lin2 (\<lambda>i j. if i = 0 then 1 else 2) (\<lambda>i j. if i = 0 then 1 else 0) (\<lambda>i j. 3)
     \<and> inBBox (goodRegion 3 3 lin2) 1 2
     \<and> pix (convolveRegionWithInterpolation (img3 7) ramp3 (wholeRegion ramp3 lin2)) 1 2
         = pix (fst (basicConvolve (img3 7) ramp3 lin2 False)) 1 2
     \<and> pix (fst (basicConvolve (img3 7) ramp3 lin2 False)) 1 2 = 120"
proof -
  have wf: "kernel_wf lin2"
    by (simp add: kernel_wf_def lin2_def)
  have lin: "linearKernel lin2 (\<lambda>i j. if i = 0 then 1 else 2) (\<lambda>i j. if i = 0 then 1 else 0) (\<lambda>i j. 3)"
    by (simp add: linearKernel_def lin2_def rawImage_def fun_eq_iff)
  have dims: "getWidth (img3 7) = getWidth ramp3" "getHeight (img3 7) = getHeight ramp3"
    "kernelWidth lin2 \<le> getWidth ramp3" "kernelHeight lin2 \<le> getHeight ramp3"
    "getWidth ramp3 = 3" "getHeight ramp3 = 3"
    by (simp_all add: img3_def ramp3_def lin2_def)
  have good: "inBBox (goodRegion 3 3 lin2) 1 2"
    by (simp add: goodRegion_def inBBox_mkBBox lin2_def)
  have eq: "pix (convolveRegionWithInterpolation (img3 7) ramp3 (wholeRegion ramp3 lin2)) 1 2
         = pix (fst (basicConvolve (img3 7) ramp3 lin2 False)) 1 2"
  proof -
    have "(convolveRegionWithInterpolation (img3 7) ramp3 (wholeRegion ramp3 lin2), None)
        = basicConvolve (img3 7) ramp3 lin2 False"
      using interpolation_exact_for_linear_kernel [OF wf lin dims(1-4)] by blast
    then have "fst (basicConvolve (img3 7) ramp3 lin2 False)
        = convolveRegionWithInterpolation (img3 7) ramp3 (wholeRegion ramp3 lin2)"
      by (metis fst_conv)
    then show ?thesis by simp
  qed
  have val: "pix (fst (basicConvolve (img3 7) ramp3 lin2 False)) 1 2 = 120"
    by (simp add: basicConvolve_def basicConvolveGeneral_def lin2_def img3_def
        ramp3_def Let_def upt_rec computeImage_def rawImage_def convolveAtAPoint_def setPix_def
        indexToPosition_def kernelSum_def)
  show ?thesis using wf lin good eq val by simp
qed

section \<open>Precondition failures\<close>

lemma dims_basicConvolve:
  "getWidth (fst (basicConvolve c i k dn)) = getWidth c"
  "getHeight (fst (basicConvolve c i k dn)) = getHeight c"
  by (auto simp: basicConvolve_def basicConvolveDelta_def basicConvolveSeparable_def
      basicConvolveGeneral_def Let_def split_beta split: KernelShape.splits)

lemma basicConvolve_NotSameSize_iff:
  "snd (basicConvolve c i k dn) = Some NotSameSize \<longleftrightarrow>
     \<not> (isSpatiallyVarying k \<and> (case shape k of DeltaFunction px py \<Rightarrow> True
                                    | Separable fx fy \<Rightarrow> False | Dense f \<Rightarrow> False))
     \<and> (getWidth c, getHeight c) \<noteq> (getWidth i, getHeight i)"
  by (auto simp: basicConvolve_def basicConvolveDelta_def basicConvolveSeparable_def
      basicConvolveGeneral_def Let_def split_beta split: KernelShape.splits)

lemma basicConvolve_SmallerThanKernel_iff:
  "snd (basicConvolve c i k dn) = Some SmallerThanKernel \<longleftrightarrow>
     \<not> (isSpatiallyVarying k \<and> (case shape k of DeltaFunction px py \<Rightarrow> True
                                    | Separable fx fy \<Rightarrow> False | Dense f \<Rightarrow> False))
     \<and> (getWidth c, getHeight c) = (getWidth i, getHeight i)
     \<and> dimensionsLess (getWidth i, getHeight i) (kernelWidth k, kernelHeight k)"
  by (auto simp: basicConvolve_def basicConvolveDelta_def basicConvolveSeparable_def
      basicConvolveGeneral_def Let_def split_beta split: KernelShape.splits)

lemma basicConvolve_error_unmodified:
  "snd (basicConvolve c i k dn) \<noteq> None \<Longrightarrow> fst (basicConvolve c i k dn) = c"
  by (auto simp: basicConvolve_def basicConvolveDelta_def basicConvolveSeparable_def
      basicConvolveGeneral_def Let_def split_beta split: KernelShape.splits if_splits)

lemma convolve_precondition_unmodified:
  assumes "snd (convolve c i k dn) = Some NotSameSize
           \<or> snd (convolve c i k dn) = Some SmallerThanKernel"
  shows "fst (convolve c i k dn) = c"
proof (cases "basicConvolve c i k dn")
  case (Pair c' eo)
  show ?thesis
  proof (cases eo)
    case None
    then have "convolve c i k dn = copyBorderChecked c' i k"
      using Pair by (simp add: convolve_def)
    then show ?thesis
      using assms copyBorderChecked_error [of c' i k] by auto
  next
    case (Some e)
    then show ?thesis
      using Pair basicConvolve_error_unmodified [of c i k dn] by (simp add: convolve_def)
  qed
qed

lemma convolveLinearBases_no_precondition_failure:
  assumes "list_all (\<lambda>b. b < length (getKernelList lck) \<and> basis_wf lck (getKernelList lck ! b)) bs"
    and "getWidth bI = getWidth i" "getHeight bI = getHeight i"
    and "\<not> dimensionsLess (getWidth i, getHeight i) (lcWidth lck, lcHeight lck)"
  shows "snd (convolveLinearBases i lck bs (p, bI)) \<noteq> Some NotSameSize
         \<and> snd (convolveLinearBases i lck bs (p, bI)) \<noteq> Some SmallerThanKernel"
  using assms
proof (induction bs arbitrary: p bI)
  case Nil
  show ?case by simp
next
  case (Cons b bs)
  let ?k = "getKernelList lck ! b"
  have wf: "basis_wf lck ?k" and rest:
    "list_all (\<lambda>b. b < length (getKernelList lck) \<and> basis_wf lck (getKernelList lck ! b)) bs"
    using Cons.prems(1) by simp_all
  have kdims: "kernelWidth ?k = lcWidth lck" "kernelHeight ?k = lcHeight lck"
    using wf by (simp_all add: basis_wf_def)
  have no: "snd (basicConvolve bI i ?k False) \<noteq> Some NotSameSize"
    "snd (basicConvolve bI i ?k False) \<noteq> Some SmallerThanKernel"
    using Cons.prems(2-4)
    by (simp_all add: basicConvolve_NotSameSize_iff basicConvolve_SmallerThanKernel_iff kdims)
  obtain bI' eo where r: "basicConvolve bI i ?k False = (bI', eo)"
    by (cases "basicConvolve bI i ?k False")
  show ?case
  proof (cases eo)
    case None
    have dims: "getWidth bI' = getWidth i" "getHeight bI' = getHeight i"
      using dims_basicConvolve [of bI i ?k False] r Cons.prems(2,3) by simp_all
    show ?thesis
      using Cons.IH [OF rest dims Cons.prems(4)] r None by (simp add: Let_def)
  next
    case (Some e)
    then show ?thesis using no r by simp
  qed
qed

lemma convolveLinear_precondition_unmodified:
  assumes "lck_wf lck"
    and "snd (convolveLinear fresh c i lck) = Some NotSameSize
         \<or> snd (convolveLinear fresh c i lck) = Some SmallerThanKernel"
  shows "fst (convolveLinear fresh c i lck) = c"
proof (cases "lcSpatiallyVarying lck")
  case False
  then show ?thesis
    using assms(2) convolve_precondition_unmodified [of c i "asKernel lck" False]
    by (simp add: convolveLinear_def)
next
  case True
  have all: "list_all (\<lambda>b. b < length (getKernelList lck) \<and> basis_wf lck (getKernelList lck ! b))
      [0..<length (getKernelList lck)]"
    using assms(1) by (simp add: lck_wf_def list_all_length)
  show ?thesis
  proof (cases "(getWidth c, getHeight c) \<noteq> (getWidth i, getHeight i)
      \<or> dimensionsLess (getWidth i, getHeight i) (lcWidth lck, lcHeight lck)")
    case True
    then show ?thesis
      using \<open>lcSpatiallyVarying lck\<close> by (auto simp: convolveLinear_def)
  next
    case False
    let ?bI = "\<lparr>getWidth = getWidth i, getHeight = getHeight i, pix = fresh\<rparr>"
    let ?z = "fold (\<lambda>cnvY. fold (\<lambda>cnvX q. setPix q cnvX cnvY 0)
                 [lcCtrX lck..<lcCtrX lck + (getWidth i + 1 - lcWidth lck)])
               [lcCtrY lck..<lcCtrY lck + (getHeight i + 1 - lcHeight lck)] (pix c)"
    let ?r = "convolveLinearBases i lck [0..<length (getKernelList lck)] (?z, ?bI)"
    have nd: "\<not> dimensionsLess (getWidth i, getHeight i) (lcWidth lck, lcHeight lck)"
      using False by simp
    have no: "snd ?r \<noteq> Some NotSameSize \<and> snd ?r \<noteq> Some SmallerThanKernel"
      by (rule convolveLinearBases_no_precondition_failure [OF all _ _ nd]) simp_all
    obtain p eo where r: "?r = (p, eo)" by (cases ?r)
    have cl: "convolveLinear fresh c i lck =
        (case eo of Some e \<Rightarrow> (c\<lparr>pix := p\<rparr>, Some e)
                  | None \<Rightarrow> copyBorderChecked (c\<lparr>pix := p\<rparr>) i (asKernel lck))"
      using \<open>lcSpatiallyVarying lck\<close> False r
      by (simp add: convolveLinear_def Let_def split: option.splits)
    have "snd (convolveLinear fresh c i lck) \<noteq> Some NotSameSize
        \<and> snd (convolveLinear fresh c i lck) \<noteq> Some SmallerThanKernel"
    proof (cases eo)
      case None
      then show ?thesis
        using cl copyBorderChecked_error [of "c\<lparr>pix := p\<rparr>" i "asKernel lck"] by auto
    next
      case (Some e)
      then show ?thesis using cl no r by simp
    qed
    then show ?thesis using assms(2) by simp
  qed
qed

lemma convolveWithInterpolation_error_unmodified:
  "snd (convolveWithInterpolation regionRows c i k ctl) \<noteq> None
     \<Longrightarrow> fst (convolveWithInterpolation regionRows c i k ctl) = c"
  by (auto simp: convolveWithInterpolation_def Let_def split_beta split: sum.splits if_splits)

text \<open>
  Claim C10.  \<open>basicConvolve\<close> raises its first exception exactly when its assertion holds
  and the output and input dimensions differ, and its second exactly when they are equal
  and the dimensions of the input are below those of the kernel in the order of the code,
  \<open>dimensionsLess\<close>.  Whenever \<open>basicConvolve\<close>, \<open>convolveLinear\<close> (on a well-formed
  linear-combination kernel) or \<open>convolveWithInterpolation\<close> raises one of the two
  exceptions, the output image is the one the call received.
\<close>

theorem precondition_failure_leaves_output:
  "(snd (basicConvolve c i k dn) = Some NotSameSize \<longleftrightarrow>
      \<not> (isSpatiallyVarying k \<and> (case shape k of DeltaFunction px py \<Rightarrow> True
                                     | Separable fx fy \<Rightarrow> False | Dense f \<Rightarrow> False))
      \<and> (getWidth c, getHeight c) \<noteq> (getWidth i, getHeight i))
   \<and> (snd (basicConvolve c i k dn) = Some SmallerThanKernel \<longleftrightarrow>
      \<not> (isSpatiallyVarying k \<and> (case shape k of DeltaFunction px py \<Rightarrow> True
                                     | Separable fx fy \<Rightarrow> False | Dense f \<Rightarrow> False))
      \<and> (getWidth c, getHeight c) = (getWidth i, getHeight i)
      \<and> dimensionsLess (getWidth i, getHeight i) (kernelWidth k, kernelHeight k))
   \<and> (snd (basicConvolve c i k dn) = Some NotSameSize
        \<or> snd (basicConvolve c i k dn) = Some SmallerThanKernel
        \<longrightarrow> fst (basicConvolve c i k dn) = c)
   \<and> (lck_wf lck \<and> (snd (convolveLinear fresh c i lck) = Some NotSameSize
                     \<or> snd (convolveLinear fresh c i lck) = Some SmallerThanKernel)
        \<longrightarrow> fst (convolveLinear fresh c i lck) = c)
   \<and> (snd (convolveWithInterpolation regionRows c i k ctl) = Some NotSameSize
        \<or> snd (convolveWithInterpolation regionRows c i k ctl) = Some SmallerThanKernel
        \<longrightarrow> fst (convolveWithInterpolation regionRows c i k ctl) = c)"
proof -
  have a: "snd (basicConvolve c i k dn) = Some NotSameSize
        \<or> snd (basicConvolve c i k dn) = Some SmallerThanKernel
        \<longrightarrow> fst (basicConvolve c i k dn) = c"
    using basicConvolve_error_unmodified [of c i k dn] by auto
  have b: "lck_wf lck \<and> (snd (convolveLinear fresh c i lck) = Some NotSameSize
                     \<or> snd (convolveLinear fresh c i lck) = Some SmallerThanKernel)
        \<longrightarrow> fst (convolveLinear fresh c i lck) = c"
    using convolveLinear_precondition_unmodified [of lck fresh c i] by blast
  have d: "snd (convolveWithInterpolation regionRows c i k ctl) = Some NotSameSize
        \<or> snd (convolveWithInterpolation regionRows c i k ctl) = Some SmallerThanKernel
        \<longrightarrow> fst (convolveWithInterpolation regionRows c i k ctl) = c"
    using convolveWithInterpolation_error_unmodified [of regionRows c i k ctl] by auto
  show ?thesis
    using basicConvolve_NotSameSize_iff [of c i k dn] basicConvolve_SmallerThanKernel_iff [of c i k dn]
      a b d
    by blast
qed

theorem precondition_failure_leaves_output_witness:
  "lck_wf lck2
   \<and> snd (basicConvolve (img3 7) img5x2 box3 False) = Some NotSameSize
   \<and> fst (basicConvolve (img3 7) img5x2 box3 False) = img3 7
   \<and> dimensionsLess (2, 5) (3, 3)
   \<and> snd (basicConvolve img2x5 img2x5 box3 False) = Some SmallerThanKernel
   \<and> fst (basicConvolve img2x5 img2x5 box3 False) = img2x5
   \<and> \<not> dimensionsLess (5, 2) (3, 3)
   \<and> snd (basicConvolve img5x2 img5x2 box3 False) = None
   \<and> snd (convolveLinear (\<lambda>x y. 0) (img3 7) img5x2 lck2) = Some NotSameSize
   \<and> fst (convolveLinear (\<lambda>x y. 0) (img3 7) img5x2 lck2) = img3 7
   \<and> snd (convolveWithInterpolation (\<lambda>k b dn nx ny. []) (img3 7) img5x2 box3
             \<lparr>getDoNormalize = False, getMaxInterpolationDistance = 10\<rparr>) = Some NotSameSize
   \<and> fst (convolveWithInterpolation (\<lambda>k b dn nx ny. []) (img3 7) img5x2 box3
             \<lparr>getDoNormalize = False, getMaxInterpolationDistance = 10\<rparr>) = img3 7"
proof -
  note t1 = precondition_failure_leaves_output [of "img3 7" img5x2 box3 False lck2 "\<lambda>x y. 0"
        "\<lambda>k b dn nx ny. []" "\<lparr>getDoNormalize = False, getMaxInterpolationDistance = 10\<rparr>"]
  note t2 = precondition_failure_leaves_output [of img2x5 img2x5 box3 False lck2 "\<lambda>x y. 0"
        "\<lambda>k b dn nx ny. []" "\<lparr>getDoNormalize = False, getMaxInterpolationDistance = 10\<rparr>"]
  have wf: "lck_wf lck2"
    by (simp add: lck_wf_def lck2_def basis_wf_def kernel_wf_def delta3_def ones3_def)
  have box: "\<not> isSpatiallyVarying box3" "kernelWidth box3 = 3" "kernelHeight box3 = 3"
    by (simp_all add: box3_def)
  have dims: "getWidth (img3 7) = 3" "getHeight (img3 7) = 3" "getWidth img5x2 = 5"
    "getHeight img5x2 = 2" "getWidth img2x5 = 2" "getHeight img2x5 = 5"
    by (simp_all add: img3_def img5x2_def img2x5_def)
  have less: "dimensionsLess (2, 5) (3, 3)" "\<not> dimensionsLess (5, 2) (3, 3)"
    by (simp_all add: dimensionsLess_def)
  have e1: "snd (basicConvolve (img3 7) img5x2 box3 False) = Some NotSameSize"
    using t1 by (simp add: box dims)
  have e2: "snd (basicConvolve img2x5 img2x5 box3 False) = Some SmallerThanKernel"
    using t2 less by (simp add: box dims)
  have e3: "snd (basicConvolve img5x2 img5x2 box3 False) = None"
    by (simp add: basicConvolve_def basicConvolveGeneral_def box3_def img5x2_def
        dimensionsLess_def Let_def)
  have e4: "snd (convolveLinear (\<lambda>x y. 0) (img3 7) img5x2 lck2) = Some NotSameSize"
    by (simp add: convolveLinear_def lck2_def img3_def img5x2_def)
  have e5: "snd (convolveWithInterpolation (\<lambda>k b dn nx ny. []) (img3 7) img5x2 box3
             \<lparr>getDoNormalize = False, getMaxInterpolationDistance = 10\<rparr>) = Some NotSameSize"
    by (simp add: convolveWithInterpolation_def img3_def img5x2_def)
  show ?thesis
    using wf less e1 e2 e3 e4 e5 t1 t2 by simp
qed

text \<open>
  An image lower than the kernel that passes the size test: 5 by 2 with the 3 by 3 box
  kernel.  The convolution writes no pixel, and the bottom and top strips of the border
  cover the image, so \<open>convolve\<close> copies the input.
\<close>

lemma convolve_lower_image:
  "snd (convolve (img5x2\<lparr>pix := (\<lambda>x y. 0)\<rparr>) img5x2 box3 False) = None
   \<and> pix (fst (convolve (img5x2\<lparr>pix := (\<lambda>x y. 0)\<rparr>) img5x2 box3 False)) 2 0 = 1
   \<and> pix (fst (convolve (img5x2\<lparr>pix := (\<lambda>x y. 0)\<rparr>) img5x2 box3 False)) 2 1 = 1"
proof -
  have bc: "basicConvolve (img5x2\<lparr>pix := (\<lambda>x y. 0)\<rparr>) img5x2 box3 False
      = (img5x2\<lparr>pix := (\<lambda>x y. 0)\<rparr>, None)"
    by (simp add: basicConvolve_def basicConvolveGeneral_def box3_def img5x2_def
        dimensionsLess_def Let_def)
  have cb: "copyBorderChecked (img5x2\<lparr>pix := (\<lambda>x y. 0)\<rparr>) img5x2 box3
      = (copyBorder (img5x2\<lparr>pix := (\<lambda>x y. 0)\<rparr>) img5x2 box3, None)"
    by (rule copyBorderChecked_eq) (simp_all add: img5x2_def box3_def)
  show ?thesis
    by (simp add: convolve_def bc cb pix_copyBorder)
       (simp add: bottomEdge_def topEdge_def leftEdge_def rightEdge_def inBBox_mkBBox
         img5x2_def box3_def)
qed

section \<open>Properties of the Warper\<close>

lemma set_destPixels: "(x, y) \<in> set (destPixels w h) \<longleftrightarrow> x < w \<and> y < h"
  by (fastforce simp: destPixels_def)

lemma warpPixels_ok:
  assumes "computeVectorsW wk = Inr kv"
  shows "warpPixels cnv ep wk srcMI dW sW ps (p, n) =
     ((\<lambda>x y. if (x, y) \<in> set ps
               then (if tooNearEdge wk srcMI dW sW x y then ep
                     else warpedPixel cnv srcMI dW sW kv x y)
               else p x y,
       n + int (length (filter (\<lambda>(x, y). \<not> tooNearEdge wk srcMI dW sW x y) ps))), None)"
proof (induction ps arbitrary: p n)
  case Nil
  show ?case by simp
next
  case (Cons a ps)
  obtain x y where a: "a = (x, y)" by (cases a)
  show ?case
    unfolding a by (auto simp: assms Cons.IH setPix_apply fun_eq_iff)
qed

lemma warpPixels_all_edge:
  assumes "list_all (\<lambda>(x, y). tooNearEdge wk srcMI dW sW x y) ps"
  shows "warpPixels cnv ep wk srcMI dW sW ps (p, n) =
     ((\<lambda>x y. if (x, y) \<in> set ps then ep else p x y, n), None)"
  using assms
proof (induction ps arbitrary: p n)
  case Nil
  show ?case by simp
next
  case (Cons a ps)
  obtain x y where a: "a = (x, y)" by (cases a)
  show ?case
    using Cons.prems unfolding a by (auto simp: Cons.IH setPix_apply fun_eq_iff)
qed

lemma warpPixels_fail:
  assumes "computeVectorsW wk = Inl e"
    and "\<not> list_all (\<lambda>(x, y). tooNearEdge wk srcMI dW sW x y) ps"
  shows "snd (warpPixels cnv ep wk srcMI dW sW ps (p, n)) = Some e"
  using assms(2)
proof (induction ps arbitrary: p n)
  case Nil
  then show ?case by simp
next
  case (Cons a ps)
  obtain x y where a: "a = (x, y)" by (cases a)
  show ?case
  proof (cases "tooNearEdge wk srcMI dW sW x y")
    case True
    then show ?thesis
      using Cons.prems Cons.IH unfolding a by simp
  next
    case False
    then show ?thesis
      unfolding a by (simp add: assms(1))
  qed
qed

lemma filter_all_edge:
  "list_all (\<lambda>(x, y). P x y) ps \<Longrightarrow> filter (\<lambda>(x, y). \<not> P x y) ps = []"
  by (induction ps) auto

text \<open>
  What \<open>warpExposure\<close> does with the destination pixels that are too near the edge.  It
  raises an exception only when the evaluation of the warping kernel raises one at a
  destination pixel that is not too near the edge, so never because of an edge pixel.  When
  it returns, it returns the number of destination pixels that are not too near the edge,
  and every destination pixel that is too near the edge holds the edge pixel as the code
  builds it.
\<close>

lemma warpExposure_characterisation:
  fixes destExposure srcExposure :: Exposure and wk :: WarpingKernel
  defines "W \<equiv> getWidth (getMaskedImage destExposure)"
    and "H \<equiv> getHeight (getMaskedImage destExposure)"
    and "edge \<equiv> tooNearEdge wk (getMaskedImage srcExposure) (getWcs destExposure) (getWcs srcExposure)"
  shows "(snd (warpExposure cnv edgePixelMask destExposure srcExposure wk) \<noteq> None \<longleftrightarrow>
            (\<exists>e. computeVectorsW wk = Inl e) \<and> \<not> list_all (\<lambda>(x, y). edge x y) (destPixels W H))
       \<and> (snd (warpExposure cnv edgePixelMask destExposure srcExposure wk) = None \<longrightarrow>
            snd (fst (warpExposure cnv edgePixelMask destExposure srcExposure wk))
              = int (length (filter (\<lambda>(x, y). \<not> edge x y) (destPixels W H)))
          \<and> (\<forall>x y. x < W \<and> y < H \<and> edge x y \<longrightarrow>
                pix (fst (fst (warpExposure cnv edgePixelMask destExposure srcExposure wk))) x y
                  = SinglePixel 0 0 (real edgePixelMask)))"
proof (cases "computeVectorsW wk")
  case (Inr kv)
  show ?thesis
    by (simp add: warpExposure_def Let_def warpPixels_ok [OF Inr] Inr set_destPixels
        W_def H_def edge_def)
next
  case (Inl e)
  show ?thesis
  proof (cases "list_all (\<lambda>(x, y). edge x y) (destPixels W H)")
    case True
    then show ?thesis
      using warpPixels_all_edge [of wk "getMaskedImage srcExposure" "getWcs destExposure"
          "getWcs srcExposure" "destPixels W H" cnv] filter_all_edge [of edge "destPixels W H"]
      by (simp add: warpExposure_def Let_def set_destPixels W_def H_def edge_def)
  next
    case False
    then show ?thesis
      using warpPixels_fail [OF Inl, of "getMaskedImage srcExposure" "getWcs destExposure"
          "getWcs srcExposure" "destPixels W H" cnv] Inl
      by (simp add: warpExposure_def Let_def W_def H_def edge_def split_beta)
  qed
qed

lemma edge_pixel_1_0:
  "tooNearEdge wk2 (getMaskedImage srcExp) (getWcs destExp) (getWcs srcExp) 1 0"
  by (simp add: tooNearEdge_def Let_def srcPosOf_def positionToIndex_def indexToPosition_def
      wk2_def srcExp_def destExp_def identWcs_def shiftWcs_def)

lemma good_pixel_0_0:
  "\<not> tooNearEdge wk2 (getMaskedImage srcExp) (getWcs destExp) (getWcs srcExp) 0 0"
  by (simp add: tooNearEdge_def Let_def srcPosOf_def positionToIndex_def indexToPosition_def
      wk2_def srcExp_def destExp_def identWcs_def shiftWcs_def)

lemma warpExposure_aborts_at_good_pixel:
  "snd (warpExposure convolvePlanes 16 destExp srcExp wkBad) \<noteq> None"
proof -
  have dims: "getWidth (getMaskedImage destExp) = 2" "getHeight (getMaskedImage destExp) = 1"
    by (simp_all add: destExp_def)
  have px: "destPixels 2 (Suc 0) = [(0, 0), (Suc 0, 0)]"
    by (simp add: destPixels_def upt_rec)
  have bad: "computeVectorsW wkBad = Inl InvalidParameter"
    by (simp add: computeVectorsW_def wkBad_def)
  have good_bad: "\<not> tooNearEdge wkBad (getMaskedImage srcExp) (getWcs destExp) (getWcs srcExp) 0 0"
    by (simp add: tooNearEdge_def Let_def srcPosOf_def positionToIndex_def indexToPosition_def
        wkBad_def srcExp_def destExp_def identWcs_def shiftWcs_def)
  show ?thesis
    using warpExposure_characterisation [of convolvePlanes 16 destExp srcExp wkBad] bad good_bad
    by (simp add: dims px)
qed

text \<open>
  Claim C5 at a concrete input.  The destination is 2 by 1, the source 3 by 3, the mask of
  the EDGE plane is 16.  The destination pixel (0, 0) is not too near the edge; the pixel
  (1, 0) maps to the source column 5, off the source, and is too near the edge.
  \<open>warpExposure\<close> raises no exception and returns 1, the number of destination pixels that
  are not too near the edge.  The pixel (1, 0) holds the edge pixel, which is not image 0,
  variance 0 and mask 16: the code passes the mask as the third argument of \<open>SinglePixel\<close>,
  the variance, so the pixel has the mask 0 and the variance 16.
\<close>

theorem warpExposure_edge_pixel_planes:
  "snd (warpExposure convolvePlanes 16 destExp srcExp wk2) = None
     \<and> snd (fst (warpExposure convolvePlanes 16 destExp srcExp wk2)) = 1
     \<and> \<not> tooNearEdge wk2 (getMaskedImage srcExp) (getWcs destExp) (getWcs srcExp) 0 0
     \<and> tooNearEdge wk2 (getMaskedImage srcExp) (getWcs destExp) (getWcs srcExp) 1 0
     \<and> pix (fst (fst (warpExposure convolvePlanes 16 destExp srcExp wk2))) 1 0
         = \<lparr>mpImage = 0, mpMask = 0, mpVariance = 16\<rparr>
     \<and> pix (fst (fst (warpExposure convolvePlanes 16 destExp srcExp wk2))) 1 0
         \<noteq> \<lparr>mpImage = 0, mpMask = 16, mpVariance = 0\<rparr>"
proof -
  note t = warpExposure_characterisation [of convolvePlanes 16 destExp srcExp wk2]
  have cv: "computeVectorsW wk2 = Inr ([1, 0], [1], 1)"
    by (simp add: computeVectorsW_def wk2_def)
  have dims: "getWidth (getMaskedImage destExp) = 2" "getHeight (getMaskedImage destExp) = 1"
    by (simp_all add: destExp_def)
  have px: "destPixels 2 (Suc 0) = [(0, 0), (Suc 0, 0)]"
    by (simp add: destPixels_def upt_rec)
  have ok: "snd (warpExposure convolvePlanes 16 destExp srcExp wk2) = None"
    using t cv by simp
  have cnt: "snd (fst (warpExposure convolvePlanes 16 destExp srcExp wk2)) = 1"
    using t ok edge_pixel_1_0 good_pixel_0_0 by (simp add: dims px)
  have "\<forall>x y. x < 2 \<and> y < 1
          \<and> tooNearEdge wk2 (getMaskedImage srcExp) (getWcs destExp) (getWcs srcExp) x y \<longrightarrow>
          pix (fst (fst (warpExposure convolvePlanes 16 destExp srcExp wk2))) x y
            = SinglePixel 0 0 16"
    using t ok by (simp add: dims)
  then have edge: "pix (fst (fst (warpExposure convolvePlanes 16 destExp srcExp wk2))) 1 0
            = \<lparr>mpImage = 0, mpMask = 0, mpVariance = 16\<rparr>"
    using edge_pixel_1_0 by (simp add: SinglePixel_def)
  show ?thesis
    using ok cnt edge_pixel_1_0 good_pixel_0_0 edge by simp
qed

lemma warpExposure_good_pixel:
  assumes "computeVectorsW wk = Inr (kernelXList, kernelYList, kSum)"
    and "x < getWidth (getMaskedImage destExposure)" "y < getHeight (getMaskedImage destExposure)"
    and "\<not> tooNearEdge wk (getMaskedImage srcExposure) (getWcs destExposure) (getWcs srcExposure) x y"
  shows "pix (fst (fst (warpExposure cnv edgePixelMask destExposure srcExposure wk))) x y
     = warpedPixel cnv (getMaskedImage srcExposure) (getWcs destExposure) (getWcs srcExposure)
         (kernelXList, kernelYList, kSum) x y"
  using assms
  by (simp add: warpExposure_def Let_def warpPixels_ok [OF assms(1)] set_destPixels)

lemma warpedPixel_factor:
  "mpImage (warpedPixel cnv srcMI destWcs srcWcs (kernelXList, kernelYList, kSum) x y)
     = mpImage (cnv (pix srcMI)
         (nat (fst (positionToIndex (fst (srcPosOf destWcs srcWcs x y)))))
         (nat (fst (positionToIndex (snd (srcPosOf destWcs srcWcs x y)))))
         kernelXList kernelYList)
       * (pixArea destWcs (indexToPosition x, indexToPosition y)
          / (pixArea srcWcs (srcPosOf destWcs srcWcs x y) * kSum))"
  "mpVariance (warpedPixel cnv srcMI destWcs srcWcs (kernelXList, kernelYList, kSum) x y)
     = mpVariance (cnv (pix srcMI)
         (nat (fst (positionToIndex (fst (srcPosOf destWcs srcWcs x y)))))
         (nat (fst (positionToIndex (snd (srcPosOf destWcs srcWcs x y)))))
         kernelXList kernelYList)
       * (pixArea destWcs (indexToPosition x, indexToPosition y)
          / (pixArea srcWcs (srcPosOf destWcs srcWcs x y) * kSum))\<^sup>2"
  by (simp_all add: warpedPixel_def Let_def power2_eq_square)

text \<open>
  Claim C6 at a concrete input.  The destination pixel (0, 0) maps to the source position
  (0.25, 0.25): integer part (0, 0), fractional part (0.25, 0.25), not too near the edge.  The
  weights of the warping kernel at that fractional position are (1, 0.25) and (1), with sum
  1.25, which would give the pixel the image value 31/5.  \<open>warpExposure\<close> never passes the
  fractional position to the kernel: \<open>computeVectors\<close> returns the weights (1, 0) and (1)
  of the parameters the kernel came with, the sum is 1, and the pixel gets the image value
  6 and the variance 2.
\<close>

theorem warpExposure_ignores_fractional_position:
  "positionToIndex (fst (srcPosOf (getWcs destExp) (getWcs srcExp) 0 0)) = (0, 1 / 4)
     \<and> positionToIndex (snd (srcPosOf (getWcs destExp) (getWcs srcExp) 0 0)) = (0, 1 / 4)
     \<and> computeVectorsW (setKernelParameters wk2 (1 / 4, 1 / 4)) = Inr ([1, 1 / 4], [1], 5 / 4)
     \<and> mpImage (warpedPixel convolvePlanes (getMaskedImage srcExp) (getWcs destExp) (getWcs srcExp)
                  ([1, 1 / 4], [1], 5 / 4) 0 0) = 31 / 5
     \<and> computeVectorsW wk2 = Inr ([1, 0], [1], 1)
     \<and> snd (warpExposure convolvePlanes 16 destExp srcExp wk2) = None
     \<and> mpImage (pix (fst (fst (warpExposure convolvePlanes 16 destExp srcExp wk2))) 0 0) = 6
     \<and> mpVariance (pix (fst (fst (warpExposure convolvePlanes 16 destExp srcExp wk2))) 0 0) = 2"
proof -
  have cv: "computeVectorsW wk2 = Inr ([1, 0], [1], 1)"
    by (simp add: computeVectorsW_def wk2_def)
  have pos: "srcPosOf (getWcs destExp) (getWcs srcExp) 0 0 = (1 / 4, 1 / 4)"
    by (simp add: srcPosOf_def Let_def indexToPosition_def destExp_def srcExp_def identWcs_def
        shiftWcs_def)
  have p2i: "positionToIndex (1 / 4) = (0, 1 / 4)"
    by (simp add: positionToIndex_def)
  have claimed: "mpImage (warpedPixel convolvePlanes (getMaskedImage srcExp) (getWcs destExp)
                  (getWcs srcExp) ([1, 1 / 4], [1], 5 / 4) 0 0) = 31 / 5"
    apply (simp only: warpedPixel_def Let_def prod.case pos p2i fst_conv snd_conv)
    apply (simp add: convolvePlanes_def convolveAtAPointSeparable_def upt_rec srcExp_def
        destExp_def identWcs_def shiftWcs_def indexToPosition_def)
    done
  have px: "pix (fst (fst (warpExposure convolvePlanes 16 destExp srcExp wk2))) 0 0
      = warpedPixel convolvePlanes (getMaskedImage srcExp) (getWcs destExp) (getWcs srcExp)
          ([1, 0], [1], 1) 0 0"
    using warpExposure_good_pixel [OF cv _ _ good_pixel_0_0] by (simp add: destExp_def)
  have img: "mpImage (warpedPixel convolvePlanes (getMaskedImage srcExp) (getWcs destExp)
      (getWcs srcExp) ([1, 0], [1], 1) 0 0) = 6"
    apply (simp only: warpedPixel_def Let_def prod.case pos p2i fst_conv snd_conv)
    apply (simp add: convolvePlanes_def convolveAtAPointSeparable_def upt_rec srcExp_def
        destExp_def identWcs_def shiftWcs_def indexToPosition_def)
    done
  have var: "mpVariance (warpedPixel convolvePlanes (getMaskedImage srcExp) (getWcs destExp)
      (getWcs srcExp) ([1, 0], [1], 1) 0 0) = 2"
    apply (simp only: warpedPixel_def Let_def prod.case pos p2i fst_conv snd_conv)
    apply (simp add: convolvePlanes_def convolveAtAPointSeparable_def upt_rec srcExp_def
        destExp_def identWcs_def shiftWcs_def indexToPosition_def)
    done
  have ok: "snd (warpExposure convolvePlanes 16 destExp srcExp wk2) = None"
    by (simp add: warpExposure_def Let_def warpPixels_ok [OF cv])
  have cv2: "computeVectorsW (setKernelParameters wk2 (1 / 4, 1 / 4)) = Inr ([1, 1 / 4], [1], 5 / 4)"
    by (simp add: computeVectorsW_def setKernelParameters_def wk2_def)
  show ?thesis
    using cv cv2 claimed ok by (simp add: pos p2i px img var)
qed

end
